theory Spec2Isabelle
  imports Complex_Main
begin

section \<open>Python values used by the parsers\<close>

text \<open>
  Strings are \<^typ>\<open>string\<close> over ASCII characters. A Python \<open>float\<close> is modelled as a
  \<^typ>\<open>real\<close>: rounding, overflow to infinity and NaN are outside the model. Exceptions are
  values of \<open>py_error\<close>; a function that can raise returns \<open>py_error + 'a\<close>.
\<close>

datatype py_error = ValueError | IndexError | RecursionError

definition is_space :: "char \<Rightarrow> bool" where
  "is_space c \<longleftrightarrow> c \<in> set [CHR 0x09, CHR 0x0A, CHR 0x0B, CHR 0x0C, CHR 0x0D,
                              CHR 0x1C, CHR 0x1D, CHR 0x1E, CHR 0x1F, CHR '' '']"

definition is_digit :: "char \<Rightarrow> bool" where
  "is_digit c \<longleftrightarrow> c \<in> set ''0123456789''"

definition digit_val :: "char \<Rightarrow> nat" where
  "digit_val c =
     (case map_of (zip ''0123456789'' [0, 1, 2, 3, 4, 5, 6, 7, 8, 9]) c of
        Some n \<Rightarrow> n
      | None \<Rightarrow> 0)"

text \<open>\<open>s.strip()\<close>, \<open>s.strip(chars)\<close>, \<open>s.lstrip(chars)\<close>, \<open>s.rstrip(chars)\<close>.\<close>

definition lstrip_chars :: "string \<Rightarrow> string \<Rightarrow> string" where
  "lstrip_chars cs s = dropWhile (\<lambda>c. c \<in> set cs) s"

definition rstrip_chars :: "string \<Rightarrow> string \<Rightarrow> string" where
  "rstrip_chars cs s = rev (dropWhile (\<lambda>c. c \<in> set cs) (rev s))"

definition strip_chars :: "string \<Rightarrow> string \<Rightarrow> string" where
  "strip_chars cs s = lstrip_chars cs (rstrip_chars cs s)"

definition strip :: "string \<Rightarrow> string" where
  "strip s = dropWhile is_space (rev (dropWhile is_space (rev s)))"

text \<open>\<open>s.split(c)\<close> for a one-character separator, and \<open>s.split(c, 1)\<close>.\<close>

fun split :: "char \<Rightarrow> string \<Rightarrow> string list" where
  "split c [] = [[]]"
| "split c (x # xs) =
     (if x = c then [] # split c xs
      else (case split c xs of [] \<Rightarrow> [[x]] | p # ps \<Rightarrow> (x # p) # ps))"

definition split1 :: "char \<Rightarrow> string \<Rightarrow> string list" where
  "split1 c s =
     (if c \<in> set s then [takeWhile (\<lambda>x. x \<noteq> c) s, tl (dropWhile (\<lambda>x. x \<noteq> c) s)]
      else [s])"

text \<open>\<open>s.replace(c, '')\<close> for one character and for a two-character pattern.\<close>

definition remove_char :: "char \<Rightarrow> string \<Rightarrow> string" where
  "remove_char c s = filter (\<lambda>x. x \<noteq> c) s"

fun remove_pair :: "char \<Rightarrow> char \<Rightarrow> string \<Rightarrow> string" where
  "remove_pair a b (x # y # r) =
     (if x = a \<and> y = b then remove_pair a b r else x # remove_pair a b (y # r))"
| "remove_pair a b r = r"

fun startswith :: "string \<Rightarrow> string \<Rightarrow> bool" where
  "startswith s [] = True"
| "startswith [] (p # ps) = False"
| "startswith (x # xs) (p # ps) = (x = p \<and> startswith xs ps)"

definition endswith :: "string \<Rightarrow> string \<Rightarrow> bool" where
  "endswith s p = startswith (rev s) (rev p)"

text \<open>\<open>p in s\<close> for strings.\<close>

fun contains :: "string \<Rightarrow> string \<Rightarrow> bool" where
  "contains [] p = (p = [])"
| "contains (x # xs) p = (startswith (x # xs) p \<or> contains xs p)"

text \<open>\<open>s.find(c)\<close> and \<open>s.find(c, start)\<close>: the first position, or \<open>-1\<close>.\<close>

fun find_char :: "char \<Rightarrow> string \<Rightarrow> int" where
  "find_char c [] = -1"
| "find_char c (x # xs) =
     (if x = c then 0 else (let r = find_char c xs in if r < 0 then -1 else r + 1))"

definition find_char_from :: "char \<Rightarrow> nat \<Rightarrow> string \<Rightarrow> int" where
  "find_char_from c start s =
     (let r = find_char c (drop start s) in if r < 0 then -1 else r + int start)"

text \<open>\<open>s[a:b]\<close> and \<open>s[a:]\<close> for non-negative positions.\<close>

definition slice :: "nat \<Rightarrow> nat \<Rightarrow> string \<Rightarrow> string" where
  "slice a b s = take (b - a) (drop a s)"

definition isdigit :: "string \<Rightarrow> bool" where
  "isdigit s \<longleftrightarrow> s \<noteq> [] \<and> list_all is_digit s"

definition upper_char :: "char \<Rightarrow> char" where
  "upper_char c =
     (case map_of (zip ''abcdefghijklmnopqrstuvwxyz'' ''ABCDEFGHIJKLMNOPQRSTUVWXYZ'') c of
        Some u \<Rightarrow> u
      | None \<Rightarrow> c)"

definition upper :: "string \<Rightarrow> string" where
  "upper s = map upper_char s"

subsection \<open>\<open>int()\<close> and \<open>float()\<close> on strings\<close>

text \<open>
  A digit part is a non-empty run of digits in which single underscores may stand between
  two digits. \<open>int(s)\<close> accepts surrounding blanks, one optional sign and a digit part.
  \<open>float(s)\<close> accepts surrounding blanks, one optional sign, a decimal mantissa
  (digit parts around an optional point, at least one of them present) and an optional
  exponent. \<open>None\<close> stands for \<open>ValueError\<close>.

  On an ASCII string the blanks that \<open>int\<close> and \<open>float\<close> skip are tab, line feed, vertical
  tab, form feed, carriage return and space. The separators 0x1C to 0x1F, which
  \<open>str.strip()\<close> removes, are not among them: \<open>int\<close> and \<open>float\<close> raise on them.

  \<open>float\<close> also accepts the literals \<open>inf\<close>, \<open>infinity\<close> and \<open>nan\<close> (in any case, with an
  optional sign) and returns a non-finite float. A non-finite float has no value in
  \<^typ>\<open>real\<close>: on these literals \<open>py_float\<close> returns \<open>None\<close> although the source does not
  raise, and the model says nothing about the source for an input that holds one of them
  in a numeric field.
\<close>

definition is_blank :: "char \<Rightarrow> bool" where
  "is_blank c \<longleftrightarrow> c \<in> set [CHR 0x09, CHR 0x0A, CHR 0x0B, CHR 0x0C, CHR 0x0D, CHR '' '']"

definition strip_blanks :: "string \<Rightarrow> string" where
  "strip_blanks s = dropWhile is_blank (rev (dropWhile is_blank (rev s)))"

fun digitpart_ok :: "string \<Rightarrow> bool" where
  "digitpart_ok [] = False"
| "digitpart_ok [c] = is_digit c"
| "digitpart_ok (c # d # r) =
     (is_digit c \<and> (if d = CHR ''_'' then digitpart_ok r else digitpart_ok (d # r)))"

definition digits_value :: "string \<Rightarrow> nat" where
  "digits_value s = foldl (\<lambda>acc c. 10 * acc + digit_val c) 0 (filter is_digit s)"

definition py_nat :: "string \<Rightarrow> nat option" where
  "py_nat s = (if digitpart_ok s then Some (digits_value s) else None)"

definition py_signed :: "string \<Rightarrow> int option" where
  "py_signed s =
     (case s of
        [] \<Rightarrow> None
      | c # r \<Rightarrow>
          if c = CHR ''-'' then map_option (\<lambda>n. - int n) (py_nat r)
          else if c = CHR ''+'' then map_option int (py_nat r)
          else map_option int (py_nat s))"

definition py_int :: "string \<Rightarrow> int option" where
  "py_int s = py_signed (strip_blanks s)"

definition py_mantissa :: "string \<Rightarrow> real option" where
  "py_mantissa m =
     (if CHR ''.'' \<in> set m then
        (let ip = takeWhile (\<lambda>c. c \<noteq> CHR ''.'') m;
             fp = tl (dropWhile (\<lambda>c. c \<noteq> CHR ''.'') m)
         in if (ip = [] \<and> fp = []) \<or> (ip \<noteq> [] \<and> \<not> digitpart_ok ip)
               \<or> (fp \<noteq> [] \<and> \<not> digitpart_ok fp) then None
            else Some (real (digits_value ip)
                       + real (digits_value fp) / 10 ^ length (filter is_digit fp)))
      else map_option real (py_nat m))"

definition py_unsigned_float :: "string \<Rightarrow> real option" where
  "py_unsigned_float s =
     (let isE = (\<lambda>c. c = CHR ''e'' \<or> c = CHR ''E'');
          m = takeWhile (\<lambda>c. \<not> isE c) s;
          r = dropWhile (\<lambda>c. \<not> isE c) s
      in case py_mantissa m of
           None \<Rightarrow> None
         | Some v \<Rightarrow>
             (if r = [] then Some v
              else case py_signed (tl r) of
                     None \<Rightarrow> None
                   | Some e \<Rightarrow> Some (if 0 \<le> e then v * 10 ^ nat e else v / 10 ^ nat (- e))))"

definition py_float :: "string \<Rightarrow> real option" where
  "py_float s =
     (case strip_blanks s of
        [] \<Rightarrow> None
      | c # r \<Rightarrow>
          if c = CHR ''-'' then map_option uminus (py_unsigned_float r)
          else if c = CHR ''+'' then py_unsigned_float r
          else py_unsigned_float (c # r))"

section \<open>LES data model (\<open>les_parser.py\<close>)\<close>

datatype ApertureMode = Mode_T | Mode_O | Mode_K | Mode_U | Mode_F

record Aperture =
  ap_index :: int
  ap_mode :: ApertureMode
  ap_radius :: real
  ap_inner_radius :: real
  ap_outer_radius :: real
  ap_width :: real
  ap_height :: real
  ap_angle :: real

text \<open>
  \<open>Net.points\<close> holds references to the \<open>Point\<close> objects that are also in
  \<open>Les.points\<close>; the model stores their positions in \<open>Les.points\<close>.
\<close>

record Net =
  net_index :: int
  net_image :: nat
  net_points :: "nat list"
  net_is_plain :: bool

record LesStep =
  amount :: int
  operations :: string
  offset_x :: real
  offset_y :: real
  distance_x :: real
  distance_y :: real
  step_image :: int
  tooltip :: string

record ViewImage =
  min_x :: real
  min_y :: real
  max_x :: real
  max_y :: real
  initial :: bool

datatype PointType = Type_NONE | Type_S | Type_D | Type_B | Type_P | Type_E

datatype PointStyle = NORMAL | GLOBAL | LOCAL

text \<open>
  \<open>pt_net\<close> is the reference \<open>Point.net\<close>: \<open>Some k\<close> is the \<open>k\<close>-th entry of
  \<open>Les.nets\<close>, \<open>None\<close> a default \<open>Net()\<close> of the point's own. \<open>panel_image_name\<close> is
  \<open>None\<close> while the attribute does not exist on the object.
\<close>

record Point =
  pt_original :: string
  pt_identifier :: int
  pt_x :: real
  pt_y :: real
  pt_type :: PointType
  pt_style :: PointStyle
  pt_aperture :: Aperture
  pt_content :: string
  pt_net :: "nat option"
  layer :: int
  count_of_layer :: int
  fill_color :: "nat \<times> nat \<times> nat"
  background_color :: "nat \<times> nat \<times> nat"
  default_opacity :: real
  opacity :: real
  logic_mode :: bool
  is_enable :: bool
  is_test :: bool
  is_selected :: bool
  is_visible :: bool
  pt_image :: nat
  panel_image_name :: "string option"

subsection \<open>Helpers for guarded and unguarded conversions\<close>

definition need_float :: "string \<Rightarrow> py_error + real" where
  "need_float s = (case py_float s of None \<Rightarrow> Inl ValueError | Some v \<Rightarrow> Inr v)"

definition need_int :: "string \<Rightarrow> py_error + int" where
  "need_int s = (case py_int s of None \<Rightarrow> Inl ValueError | Some v \<Rightarrow> Inr v)"

definition float_or :: "real \<Rightarrow> string \<Rightarrow> real" where
  "float_or d s = (case py_float s of None \<Rightarrow> d | Some v \<Rightarrow> v)"

definition int_or :: "int \<Rightarrow> string \<Rightarrow> int" where
  "int_or d s = (case py_int s of None \<Rightarrow> d | Some v \<Rightarrow> v)"

definition bind_err :: "py_error + 'a \<Rightarrow> ('a \<Rightarrow> py_error + 'b) \<Rightarrow> py_error + 'b" where
  "bind_err m f = (case m of Inl e \<Rightarrow> Inl e | Inr v \<Rightarrow> f v)"

subsection \<open>\<open>Aperture.__init__\<close>\<close>

definition Aperture_default :: Aperture where
  "Aperture_default =
     \<lparr>ap_index = 0, ap_mode = Mode_T, ap_radius = 10, ap_inner_radius = 0,
      ap_outer_radius = 0, ap_width = 0, ap_height = 0, ap_angle = 0\<rparr>"

text \<open>\<open>Aperture.ApertureMode[head]\<close>, with the \<open>KeyError\<close> branch.\<close>

definition mode_of_head :: "char \<Rightarrow> ApertureMode" where
  "mode_of_head c =
     (if c = CHR ''T'' then Mode_T else if c = CHR ''O'' then Mode_O
      else if c = CHR ''K'' then Mode_K else if c = CHR ''U'' then Mode_U
      else if c = CHR ''F'' then Mode_F else Mode_T)"

text \<open>
  Only the \<open>float(parts[3])\<close> of the rectangular branch sits in a \<open>try\<close>; the index and
  the other numeric fields are converted unguarded, so their \<open>ValueError\<close> leaves the
  constructor.
\<close>

definition Aperture_init :: "string \<Rightarrow> py_error + Aperture" where
  "Aperture_init content =
     (case content of
        [] \<Rightarrow> Inr Aperture_default
      | head # _ \<Rightarrow>
          (let mode = mode_of_head head;
               parts = split CHR '':'' content
           in bind_err (if length (hd parts) > 1 then need_int (tl (hd parts)) else Inr 0)
                (\<lambda>idx.
                   let a = Aperture_default\<lparr>ap_index := idx, ap_mode := mode\<rparr>
                   in if mode = Mode_T then
                        (if length parts > 1
                         then bind_err (need_float (parts ! 1)) (\<lambda>v. Inr (a\<lparr>ap_radius := v / 2\<rparr>))
                         else Inr (a\<lparr>ap_radius := 10\<rparr>))
                      else if mode = Mode_O then
                        bind_err
                          (if length parts \<ge> 3
                           then bind_err (need_float (parts ! 1)) (\<lambda>w.
                                bind_err (need_float (parts ! 2)) (\<lambda>h.
                                  Inr (a\<lparr>ap_width := w, ap_height := h\<rparr>)))
                           else Inr a)
                          (\<lambda>a2. if length parts \<ge> 4
                                 then Inr (a2\<lparr>ap_angle := float_or 0 (parts ! 3)\<rparr>)
                                 else Inr a2)
                      else if mode = Mode_K then
                        (if length parts \<ge> 3
                         then bind_err (need_float (parts ! 1)) (\<lambda>ir.
                              bind_err (need_float (parts ! 2)) (\<lambda>or.
                                Inr (a\<lparr>ap_inner_radius := ir / 2, ap_outer_radius := or / 2\<rparr>)))
                         else Inr a)
                      else Inr a)))"

subsection \<open>\<open>Net.__init__\<close>\<close>

definition Net_default :: Net where
  "Net_default = \<lparr>net_index = 0, net_image = 1, net_points = [], net_is_plain = False\<rparr>"

text \<open>
  \<open>int(digits)\<close> and \<open>int(parts[1])\<close> are applied to non-empty runs of digits only, where
  \<open>int\<close> is \<open>digits_value\<close>.
\<close>

definition Net_init :: "string \<Rightarrow> Net" where
  "Net_init content =
     (if content = [] then Net_default
      else
        (let is_plain = (CHR ''P'' \<in> set content);
             content1 = (if is_plain then remove_char CHR ''P'' content else content);
             parts = split CHR ''C'' content1;
             idx_part = strip (remove_char CHR ''@'' (hd parts));
             digits = takeWhile is_digit idx_part
         in \<lparr>net_index = (if digits \<noteq> [] then int (digits_value digits) else 0),
             net_image = (if length parts > 1 \<and> isdigit (parts ! 1)
                          then digits_value (parts ! 1) else 1),
             net_points = [],
             net_is_plain = is_plain\<rparr>))"

subsection \<open>\<open>LesStep.__init__\<close> and \<open>scale_values\<close>\<close>

definition parse_pair :: "string \<Rightarrow> py_error + (real \<times> real) option" where
  "parse_pair s =
     (let ps = split CHR '','' s
      in if length ps \<ge> 2
         then bind_err (need_float (ps ! 0)) (\<lambda>a.
              bind_err (need_float (ps ! 1)) (\<lambda>b. Inr (Some (a, b))))
         else Inr None)"

definition LesStep_init :: "string \<Rightarrow> py_error + LesStep" where
  "LesStep_init content =
     (let st0 = \<lparr>amount = 0, operations = [], offset_x = 0, offset_y = 0,
                 distance_x = 0, distance_y = 0, step_image = 1, tooltip = content\<rparr>;
          parts = split CHR '':'' content
      in if length parts < 5 then Inr st0
         else
           (let st1 = st0\<lparr>amount := int_or 0 (parts ! 1), operations := parts ! 2\<rparr>
            in bind_err (parse_pair (parts ! 3)) (\<lambda>off.
               bind_err (parse_pair (parts ! 4)) (\<lambda>dist.
                 let st2 = (case off of None \<Rightarrow> st1
                            | Some (a, b) \<Rightarrow> st1\<lparr>offset_x := a, offset_y := b\<rparr>);
                     st3 = (case dist of None \<Rightarrow> st2
                            | Some (a, b) \<Rightarrow> st2\<lparr>distance_x := a, distance_y := b\<rparr>)
                 in Inr (if length parts > 5 \<and> CHR ''I'' \<in> set (parts ! 5)
                         then st3\<lparr>step_image := int_or 1 (remove_char CHR ''I'' (parts ! 5))\<rparr>
                         else st3)))))"

definition scale_values :: "real \<Rightarrow> LesStep \<Rightarrow> LesStep" where
  "scale_values s st =
     st\<lparr>offset_x := offset_x st * s, offset_y := offset_y st * s,
        distance_x := distance_x st * s, distance_y := distance_y st * s\<rparr>"

subsection \<open>\<open>ViewImage\<close>\<close>

definition ViewImage_default :: ViewImage where
  "ViewImage_default = \<lparr>min_x = 0, min_y = 0, max_x = 0, max_y = 0, initial = True\<rparr>"

definition set_size :: "Point \<Rightarrow> ViewImage \<Rightarrow> ViewImage" where
  "set_size p vi =
     (if initial vi
      then vi\<lparr>min_x := pt_x p, max_x := pt_x p, min_y := pt_y p, max_y := pt_y p,
              initial := False\<rparr>
      else vi\<lparr>min_x := min (pt_x p) (min_x vi), max_x := max (pt_x p) (max_x vi),
              min_y := min (pt_y p) (min_y vi), max_y := max (pt_y p) (max_y vi)\<rparr>)"

subsection \<open>\<open>Point.__init__\<close> and its two construction paths\<close>

text \<open>The fields as \<open>__init__\<close> sets them before looking at \<open>content\<close>.\<close>

definition Point_fields :: "string \<Rightarrow> int \<Rightarrow> nat option \<Rightarrow> PointStyle option \<Rightarrow> Point" where
  "Point_fields content col net_ref style =
     \<lparr>pt_original = content, pt_identifier = 0, pt_x = 0, pt_y = 0, pt_type = Type_NONE,
      pt_style = (case style of None \<Rightarrow> NORMAL | Some st \<Rightarrow> st),
      pt_aperture = Aperture_default, pt_content = [], pt_net = net_ref, layer = 1,
      count_of_layer = col, fill_color = (255, 215, 0), background_color = (0, 100, 0),
      default_opacity = 6 / 10, opacity = 6 / 10, logic_mode = False, is_enable = True,
      is_test = True, is_selected = False, is_visible = True, pt_image = 1,
      panel_image_name = None\<rparr>"

text \<open>The chain of \<open>replace\<close> calls that both paths apply to the line.\<close>

definition clean_content :: "string \<Rightarrow> string" where
  "clean_content content =
     remove_char CHR '','' (remove_char CHR '' ''
       (remove_pair CHR ''&'' CHR ''S'' (remove_pair CHR ''&'' CHR ''M''
         (remove_char CHR ''~'' (remove_char CHR ''/'' (remove_char CHR ''*''
           (remove_char CHR '']'' (remove_char CHR ''['' content))))))))"

text \<open>The \<open>for ap in apertures\<close> loop with its \<open>break\<close>: the first aperture of that index.\<close>

fun first_aperture :: "int \<Rightarrow> Aperture list \<Rightarrow> Aperture option" where
  "first_aperture k [] = None"
| "first_aperture k (ap # aps) = (if ap_index ap = k then Some ap else first_aperture k aps)"

definition init_tooling_hole :: "Point \<Rightarrow> string \<Rightarrow> Aperture list \<Rightarrow> PointStyle \<Rightarrow> Point" where
  "init_tooling_hole p content apertures style =
     (let lead = strip (hd (split1 CHR '','' content));
          mode = (if lead = ''F'' then Mode_F else Mode_K);
          i_parts = split CHR ''I'' (clean_content content);
          cont = hd i_parts;
          p1 = p\<lparr>pt_original := content,
                 pt_aperture := (pt_aperture p)\<lparr>ap_mode := mode\<rparr>,
                 pt_content := cont,
                 pt_style := style,
                 pt_image := (if style = GLOBAL then 0
                              else if length i_parts > 1 \<and> isdigit (i_parts ! 1)
                                   then digits_value (i_parts ! 1) else 1),
                 pt_net := None, is_test := False, is_enable := False, layer := 1,
                 pt_type := Type_NONE\<rparr>;
          p2 =
            (if CHR ''X'' \<in> set cont \<and> CHR ''Y'' \<in> set cont then
               (let x_start = nat (find_char CHR ''X'' cont + 1);
                    x_end = nat (find_char CHR ''Y'' cont);
                    px = p1\<lparr>pt_x := float_or 0 (slice x_start x_end cont)\<rparr>;
                    y_start = x_end + 1;
                    t_pos = find_char_from CHR ''T'' y_start cont
                in if t_pos > 0 then
                     (let py = px\<lparr>pt_y := float_or 0 (slice y_start (nat t_pos) cont)\<rparr>
                      in case py_int (drop (nat t_pos + 1) cont) of
                           None \<Rightarrow> py
                         | Some ap_idx \<Rightarrow>
                             (case first_aperture ap_idx apertures of
                                None \<Rightarrow> py
                              | Some ap \<Rightarrow>
                                  py\<lparr>pt_aperture := (pt_aperture py)
                                       \<lparr>ap_radius :=
                                          (if mode = Mode_F then ap_radius ap
                                           else if ap_outer_radius ap \<noteq> 0
                                                then ap_outer_radius ap else ap_radius ap)\<rparr>\<rparr>))
                   else
                     px\<lparr>pt_y := float_or 0 (drop y_start cont),
                        pt_aperture := (pt_aperture px)
                          \<lparr>ap_radius := (if ap_radius (pt_aperture px) \<noteq> 0
                                         then ap_radius (pt_aperture px) else 10)\<rparr>\<rparr>)
             else p1\<lparr>pt_x := 0, pt_y := 0,
                     pt_aperture := (pt_aperture p1)\<lparr>ap_radius := 10\<rparr>\<rparr>)
      in p2\<lparr>fill_color := (148, 0, 211), background_color := (0, 100, 0)\<rparr>)"

text \<open>\<open>Point.PointType[type_char]\<close>, with the fallback of its \<open>except\<close>.\<close>

definition type_of_char :: "char \<Rightarrow> PointType" where
  "type_of_char c =
     (if c = CHR ''S'' then Type_S else if c = CHR ''D'' then Type_D
      else if c = CHR ''B'' then Type_B else if c = CHR ''P'' then Type_P
      else if c = CHR ''E'' then Type_E else Type_NONE)"

text \<open>
  The \<open>A\<close> section. Its \<open>try\<close> abandons the whole block when \<open>int\<close> or the indexing of
  \<open>ap_part\<close> raises, leaving aperture and type as they were.
\<close>

definition init_a_section :: "Point \<Rightarrow> string \<Rightarrow> Aperture list \<Rightarrow> Point" where
  "init_a_section p cont apertures =
     (if CHR ''A'' \<in> set cont then
        (let a_parts = split CHR ''A'' cont
         in if length a_parts > 1 then
              (let ap_part = hd (split CHR ''M'' (hd (split CHR ''V''
                               (hd (split CHR ''Z'' (a_parts ! 1))))));
                   lm = (CHR ''L'' \<in> set ap_part);
                   p1 = p\<lparr>logic_mode := lm\<rparr>;
                   num = (if lm then drop 3 ap_part else drop 2 ap_part);
                   tpos = (if lm then 1 else 0::nat)
               in case py_int num of
                    None \<Rightarrow> p1
                  | Some ap_idx \<Rightarrow>
                      if tpos < length ap_part then
                        (let p2 = (case first_aperture ap_idx apertures of
                                     None \<Rightarrow> p1
                                   | Some ap \<Rightarrow> p1\<lparr>pt_aperture := ap\<rparr>)
                         in p2\<lparr>pt_type := type_of_char (ap_part ! tpos)\<rparr>)
                      else p1)
            else p)
      else p)"

definition init_v_section :: "Point \<Rightarrow> string \<Rightarrow> Point" where
  "init_v_section p cont =
     (if CHR ''V'' \<in> set cont then
        (let v_parts = split CHR ''V'' cont
         in if length v_parts > 1 then
              (let layer_part = (if CHR ''N'' \<in> set (v_parts ! 1)
                                 then hd (split CHR ''N'' (v_parts ! 1)) else v_parts ! 1)
               in if layer_part \<noteq> [] then p\<lparr>layer := int_or 1 layer_part\<rparr> else p)
            else p)
      else p)"

definition init_regular_point ::
    "Point \<Rightarrow> string \<Rightarrow> int \<Rightarrow> Aperture list \<Rightarrow> nat option \<Rightarrow> Net \<Rightarrow> Point" where
  "init_regular_point p content col apertures net_ref net =
     (let cont = clean_content content;
          p1 = p\<lparr>pt_original := content, pt_style := NORMAL, pt_net := net_ref,
                 pt_image := net_image net, count_of_layer := col, pt_content := cont\<rparr>;
          p2 = (if startswith cont ''I'' \<and> CHR ''X'' \<in> set cont then
                  (let id_part = lstrip_chars ''I'' (hd (split CHR ''X'' cont))
                   in if id_part \<noteq> [] then p1\<lparr>pt_identifier := int_or 0 id_part\<rparr> else p1)
                else p1)
      in if CHR ''X'' \<in> set cont \<and> CHR ''Y'' \<in> set cont then
           (let x_part = split CHR ''X'' (hd (split CHR ''Y'' cont));
                p3 = (if length x_part > 1 then p2\<lparr>pt_x := float_or 0 (x_part ! 1)\<rparr> else p2);
                y_part = split CHR ''Y'' (hd (split CHR ''A'' cont));
                p4 = (if length y_part > 1 then p3\<lparr>pt_y := float_or 0 (y_part ! 1)\<rparr> else p3);
                p5 = init_a_section p4 cont apertures;
                p6 = init_v_section p5 cont;
                en = (layer p6 = 1 \<or> layer p6 = col);
                tst = (CHR ''*'' \<notin> set content)
            in p6\<lparr>is_enable := en, is_test := tst,
                  fill_color :=
                    (if layer p6 = 1 then (if tst then (255, 215, 0) else (184, 134, 11))
                     else if layer p6 = col \<and> col > 1
                          then (if tst then (0, 255, 0) else (0, 128, 0))
                          else (if tst then (0, 255, 255) else (70, 130, 180))),
                  background_color := (0, 100, 0)\<rparr>)
         else p2)"

text \<open>
  \<open>Point(content, count_of_layer, apertures, net, style)\<close>. \<open>net_ref\<close> and \<open>net\<close> are the
  reference passed as \<open>net\<close> and the object it refers to.
\<close>

definition Point_init ::
    "string \<Rightarrow> int \<Rightarrow> Aperture list \<Rightarrow> nat option \<Rightarrow> Net \<Rightarrow> PointStyle option \<Rightarrow> Point" where
  "Point_init content col apertures net_ref net style =
     (let p = Point_fields content col net_ref style
      in if content \<noteq> [] then
           (if style = Some GLOBAL \<or> style = Some LOCAL
            then init_tooling_hole p content apertures (the style)
            else init_regular_point p content col apertures net_ref net)
         else p)"

section \<open>Panel/image naming pass (\<open>les_parser_panel_image.py\<close>)\<close>

fun string_of_nat :: "nat \<Rightarrow> string" where
  "string_of_nat n =
     (if n < 10 then [''0123456789'' ! n]
      else string_of_nat (n div 10) @ [''0123456789'' ! (n mod 10)])"

declare string_of_nat.simps [simp del]

definition string_of_int :: "int \<Rightarrow> string" where
  "string_of_int i = (if i < 0 then CHR ''-'' # string_of_nat (nat (- i)) else string_of_nat (nat i))"

text \<open>The f-string \<open>f"Panel {panel} Image {img}"\<close>.\<close>

definition panel_label :: "nat \<Rightarrow> int \<Rightarrow> string" where
  "panel_label panel img = ''Panel '' @ string_of_nat panel @ '' Image '' @ string_of_int img"

text \<open>
  The two dictionaries are association lists in insertion order: \<open>dict_set\<close> is
  \<open>d[k] = v\<close>, \<open>map_of d k\<close> is \<open>d.get(k)\<close>.
\<close>

fun dict_set :: "'k \<Rightarrow> 'v \<Rightarrow> ('k \<times> 'v) list \<Rightarrow> ('k \<times> 'v) list" where
  "dict_set k v [] = [(k, v)]"
| "dict_set k v (e # es) = (if fst e = k then (k, v) # es else e # dict_set k v es)"

type_synonym image_usage = "(int \<times> nat list) list"
type_synonym panel_names = "((nat \<times> int) \<times> string) list"

text \<open>First loop: \<open>enumerate(steps, start=1)\<close>.\<close>

fun record_steps :: "nat \<Rightarrow> LesStep list \<Rightarrow> image_usage \<Rightarrow> image_usage" where
  "record_steps panel_index [] usage = usage"
| "record_steps panel_index (st # sts) usage =
     record_steps (Suc panel_index) sts
       (dict_set (step_image st)
          ((case map_of usage (step_image st) of None \<Rightarrow> [] | Some ps \<Rightarrow> ps) @ [panel_index])
          usage)"

text \<open>Second loop: one label for each recorded (panel, image).\<close>

definition record_names :: "image_usage \<Rightarrow> panel_names" where
  "record_names usage =
     foldl (\<lambda>names (img, panels).
              foldl (\<lambda>names panel. dict_set (panel, img) (panel_label panel img) names)
                names panels)
       [] usage"

text \<open>\<open>while next_image_id in image_usage: next_image_id += 1\<close>.\<close>

function next_unused :: "int \<Rightarrow> image_usage \<Rightarrow> int" where
  "next_unused n usage =
     (if n \<in> fst ` set usage then next_unused (n + 1) usage else n)"
  by pat_completeness auto
termination
proof (relation "measure (\<lambda>(n, usage). length (filter (\<lambda>k. n \<le> k) (map fst usage)))")
  show "wf (measure (\<lambda>(n, usage). length (filter (\<lambda>k. n \<le> k) (map fst usage))))"
    by simp
next
  fix n :: int and usage :: image_usage
  assume mem: "n \<in> fst ` set usage"
  have aux: "length (filter (\<lambda>k. n + 1 \<le> k) xs) \<le> length (filter (\<lambda>k. n \<le> k) xs)"
    for xs :: "int list"
    by (induction xs) auto
  have gen: "n \<in> set xs \<Longrightarrow>
             length (filter (\<lambda>k. n + 1 \<le> k) xs) < length (filter (\<lambda>k. n \<le> k) xs)"
    for xs :: "int list"
  proof (induction xs)
    case Nil
    then show ?case by simp
  next
    case (Cons a xs)
    then show ?case using aux[of xs] by (cases "a = n") auto
  qed
  have "n \<in> set (map fst usage)"
    using mem by simp
  from gen[OF this]
  show "((n + 1, usage), (n, usage))
           \<in> measure (\<lambda>(n, usage). length (filter (\<lambda>k. n \<le> k) (map fst usage)))"
    by simp
qed

declare next_unused.simps [simp del]

text \<open>
  Third loop, over the points. The state is \<open>(image_usage, panel_image_names,
  next_image_id)\<close>; the points come back with \<open>image\<close> and \<open>panel_image_name\<close> set.
  \<open>panel_list[0]\<close> raises \<open>IndexError\<close> on an empty list.
\<close>

fun name_points ::
    "Point list \<Rightarrow> image_usage \<Rightarrow> panel_names \<Rightarrow> int \<Rightarrow> py_error + Point list" where
  "name_points [] usage names next_image_id = Inr []"
| "name_points (pt # pts) usage names next_image_id =
     (let fresh = (pt_image pt = 0);
          next_id = (if fresh then next_unused next_image_id usage else next_image_id);
          img = (if fresh then next_id else int (pt_image pt));
          pt1 = (if fresh then pt\<lparr>pt_image := nat img\<rparr> else pt);
          usage1 = (if fresh then dict_set img [1] usage else usage);
          names1 = (if fresh then dict_set (1, img) (panel_label 1 img) names else names);
          panel_list = (case map_of usage1 img of None \<Rightarrow> [1] | Some ps \<Rightarrow> ps)
      in case panel_list of
           [] \<Rightarrow> Inl IndexError
         | panel # _ \<Rightarrow>
             bind_err (name_points pts usage1 names1 next_id)
               (\<lambda>rest.
                  Inr (pt1\<lparr>panel_image_name :=
                             Some (case map_of names1 (panel, img) of
                                     None \<Rightarrow> panel_label panel img
                                   | Some nm \<Rightarrow> nm)\<rparr> # rest)))"

definition assign_panel_image_names :: "LesStep list \<Rightarrow> Point list \<Rightarrow> py_error + Point list" where
  "assign_panel_image_names steps points =
     (let usage = record_steps 1 steps []
      in name_points points usage (record_names usage) 1)"

section \<open>LES document parser (\<open>Les.load_file\<close>)\<close>

record Les =
  les_test :: string
  les_count_of_layer :: int
  les_unit :: string
  les_scale :: real
  les_nets :: "Net list"
  les_points :: "Point list"
  les_apertures :: "Aperture list"
  les_steps :: "LesStep list"
  les_content :: "string list"
  les_outline_points :: "(real \<times> real) list list"
  les_images :: "ViewImage option list"

definition Les_init :: Les where
  "Les_init =
     \<lparr>les_test = [], les_count_of_layer = 0, les_unit = [], les_scale = 1, les_nets = [],
      les_points = [], les_apertures = [], les_steps = [], les_content = [],
      les_outline_points = [], les_images = [None, Some ViewImage_default]\<rparr>"

subsection \<open>The line patterns\<close>

text \<open>
  Each matcher decides \<open>pattern.match(line)\<close>. In every pattern a greedy run is followed
  by a character outside the run's class, so the first greedy attempt decides the match.
  \<open>at_end\<close> is \<open>$\<close>: the end of the string, or just before a final newline; \<open>.\<close> is any
  character but a newline.
\<close>

definition at_end :: "string \<Rightarrow> bool" where
  "at_end r \<longleftrightarrow> r = [] \<or> r = [CHR 0x0A]"

definition dot_star_end :: "string \<Rightarrow> bool" where
  "dot_star_end r \<longleftrightarrow> at_end (dropWhile (\<lambda>c. c \<noteq> CHR 0x0A) r)"

definition drop_opt :: "char \<Rightarrow> string \<Rightarrow> string" where
  "drop_opt c r = (case r of [] \<Rightarrow> [] | x # xs \<Rightarrow> if x = c then xs else r)"

text \<open>\<open>^L\s*(\d+)\s*\*?$\<close>, returning group 1.\<close>

definition layer_pattern :: "string \<Rightarrow> string option" where
  "layer_pattern s =
     (case s of
        [] \<Rightarrow> None
      | c # r \<Rightarrow>
          if c \<noteq> CHR ''L'' then None
          else
            (let r1 = dropWhile is_space r;
                 d = takeWhile is_digit r1;
                 r2 = dropWhile is_space (dropWhile is_digit r1)
             in if d \<noteq> [] \<and> at_end (drop_opt CHR ''*'' r2) then Some d else None))"

text \<open>\<open>^[FTOKU][0-9]+:\<close>\<close>

definition aperture_pattern :: "string \<Rightarrow> bool" where
  "aperture_pattern s =
     (case s of
        [] \<Rightarrow> False
      | c # r \<Rightarrow>
          c \<in> set ''FTOKU'' \<and> takeWhile is_digit r \<noteq> []
          \<and> startswith (dropWhile is_digit r) '':'')"

text \<open>\<open>^STEP:.*$\<close> and \<open>^F,X.*$\<close>\<close>

definition step_pattern :: "string \<Rightarrow> bool" where
  "step_pattern s \<longleftrightarrow> startswith s ''STEP:'' \<and> dot_star_end (drop 5 s)"

definition tooling_pattern :: "string \<Rightarrow> bool" where
  "tooling_pattern s \<longleftrightarrow> startswith s ''F,X'' \<and> dot_star_end (drop 3 s)"

text \<open>\<open>-?\d+\<close> at the head of a string: the rest after it, if it matches.\<close>

definition signed_digits :: "string \<Rightarrow> string option" where
  "signed_digits r =
     (let r1 = drop_opt CHR ''-'' r
      in if takeWhile is_digit r1 \<noteq> [] then Some (dropWhile is_digit r1) else None)"

text \<open>\<open>X-?\d+Y-?\d+\<close> at the head of a string: the rest after it, if it matches.\<close>

definition xy_digits :: "string \<Rightarrow> string option" where
  "xy_digits r =
     (case r of
        [] \<Rightarrow> None
      | c # r1 \<Rightarrow>
          if c \<noteq> CHR ''X'' then None
          else (case signed_digits r1 of
                  None \<Rightarrow> None
                | Some [] \<Rightarrow> None
                | Some (d # r2) \<Rightarrow> if d \<noteq> CHR ''Y'' then None else signed_digits r2))"

text \<open>\<open>^K,X-?\d+Y-?\d+(?:,)?(?:T\d+)?(?:,)?$\<close>\<close>

definition outline_pattern :: "string \<Rightarrow> bool" where
  "outline_pattern s =
     (startswith s ''K,'' \<and>
      (case xy_digits (drop 2 s) of
         None \<Rightarrow> False
       | Some t \<Rightarrow>
           (let t1 = drop_opt CHR '','' t;
                t2 = (case t1 of
                        [] \<Rightarrow> t1
                      | c # r \<Rightarrow> if c = CHR ''T'' \<and> takeWhile is_digit r \<noteq> []
                                 then dropWhile is_digit r else t1)
            in at_end (drop_opt CHR '','' t2))))"

text \<open>\<open>^I\d+X-?\d+Y-?\d+A.+$\<close>\<close>

definition point_pattern :: "string \<Rightarrow> bool" where
  "point_pattern s =
     (case s of
        [] \<Rightarrow> False
      | c # r \<Rightarrow>
          c = CHR ''I'' \<and> takeWhile is_digit r \<noteq> [] \<and>
          (case xy_digits (dropWhile is_digit r) of
             None \<Rightarrow> False
           | Some [] \<Rightarrow> False
           | Some (a # t) \<Rightarrow>
               a = CHR ''A'' \<and> t \<noteq> [] \<and> hd t \<noteq> CHR 0x0A \<and> dot_star_end t))"

subsection \<open>The handlers of \<open>load_file\<close>\<close>

text \<open>\<open>while n > len(self.images) - 1: self.images.append(ViewImage())\<close>\<close>

function grow_images :: "nat \<Rightarrow> ViewImage option list \<Rightarrow> ViewImage option list" where
  "grow_images n imgs =
     (if int n > int (length imgs) - 1 then grow_images n (imgs @ [Some ViewImage_default])
      else imgs)"
  by pat_completeness auto
termination
  by (relation "measure (\<lambda>(n, imgs). Suc n - length imgs)") auto

declare grow_images.simps [simp del]

text \<open>
  The state of the loop: the document, \<open>index_of_step\<close> (\<open>None\<close> is the initial
  \<open>float('inf')\<close>) and \<open>current_outline_segment\<close>.
\<close>

type_synonym load_state = "Les \<times> nat option \<times> (real \<times> real) list"

definition handle_unit :: "string \<Rightarrow> Les \<Rightarrow> Les" where
  "handle_unit line L =
     (let parts = split CHR '':'' line
      in if length parts \<ge> 3 then
           (let u = upper (strip (parts ! 1));
                res = float_or 1 (parts ! 2)
            in L\<lparr>les_unit := u,
                 les_scale := (if u = ''INCH'' then (if res \<noteq> 0 then 254 / 10 / res else 1)
                               else if u = ''MM'' then (if res \<noteq> 0 then 1 / res else 1)
                               else 1)\<rparr>)
         else L)"

text \<open>
  The outline branch. \<open>xs, ys = coord.split('Y', 1)\<close> raises \<open>ValueError\<close> unless there are
  two parts; one \<open>try\<close> covers both conversions, so a failure of either zeroes both.
\<close>

definition handle_outline :: "string \<Rightarrow> load_state \<Rightarrow> py_error + load_state" where
  "handle_outline line s =
     (case s of (L, ios, seg) \<Rightarrow>
        (let has_comma = endswith line '','';
             work = rstrip_chars '','' (drop 2 line);
             coord = hd (split1 CHR ''T'' work)
         in case split1 CHR ''Y'' coord of
              [xs, ys] \<Rightarrow>
                (let xy = (case (py_float (remove_char CHR ''X'' xs), py_float ys) of
                             (Some x, Some y) \<Rightarrow> (x * les_scale L, y * les_scale L)
                           | _ \<Rightarrow> (0, 0));
                     seg1 = seg @ [xy]
                 in if \<not> has_comma \<and> seg1 \<noteq> []
                    then Inr (L\<lparr>les_outline_points := les_outline_points L @ [seg1]\<rparr>, ios, [])
                    else Inr (L, ios, seg1))
            | _ \<Rightarrow> Inl ValueError))"

definition handle_tooling :: "nat \<Rightarrow> string \<Rightarrow> load_state \<Rightarrow> load_state" where
  "handle_tooling i line s =
     (case s of (L, ios, seg) \<Rightarrow>
        (let style = (case ios of None \<Rightarrow> GLOBAL
                      | Some k \<Rightarrow> if i < k then GLOBAL else LOCAL);
             p = Point_init line 1 (les_apertures L) None Net_default (Some style);
             p1 = p\<lparr>pt_x := pt_x p * les_scale L, pt_y := pt_y p * les_scale L\<rparr>
         in (L\<lparr>les_points := les_points L @ [p1]\<rparr>, ios, seg)))"

definition apply_scale_to_aperture :: "real \<Rightarrow> Aperture \<Rightarrow> Aperture" where
  "apply_scale_to_aperture sc ap =
     ap\<lparr>ap_radius := ap_radius ap * sc, ap_inner_radius := ap_inner_radius ap * sc,
        ap_outer_radius := ap_outer_radius ap * sc, ap_width := ap_width ap * sc,
        ap_height := ap_height ap * sc\<rparr>"

definition handle_aperture :: "string \<Rightarrow> load_state \<Rightarrow> py_error + load_state" where
  "handle_aperture line s =
     (case s of (L, ios, seg) \<Rightarrow>
        bind_err (Aperture_init line)
          (\<lambda>ap. Inr (L\<lparr>les_apertures :=
                          les_apertures L @ [apply_scale_to_aperture (les_scale L) ap]\<rparr>,
                      ios, seg)))"

definition handle_step :: "nat \<Rightarrow> string \<Rightarrow> load_state \<Rightarrow> py_error + load_state" where
  "handle_step i line s =
     (case s of (L, ios, seg) \<Rightarrow>
        bind_err (LesStep_init line)
          (\<lambda>st. Inr (L\<lparr>les_steps := les_steps L @ [scale_values (les_scale L) st]\<rparr>,
                      Some i, seg)))"

definition handle_net :: "string \<Rightarrow> load_state \<Rightarrow> load_state" where
  "handle_net line s =
     (case s of (L, ios, seg) \<Rightarrow>
        (let net = Net_init line
         in (L\<lparr>les_nets := les_nets L @ [net],
                les_images := grow_images (net_image net) (les_images L)\<rparr>, ios, seg)))"

text \<open>
  The last three statements of the regular-point branch: grow \<open>self.images\<close> up to
  \<open>pt.image\<close>, then update that entry's box when it is not \<open>None\<close>.
\<close>

definition update_image_box :: "Point \<Rightarrow> ViewImage option list \<Rightarrow> ViewImage option list" where
  "update_image_box pt images =
     (let imgs = grow_images (pt_image pt) images
      in if pt_image pt < length imgs
         then (case imgs ! pt_image pt of
                 None \<Rightarrow> imgs
               | Some vi \<Rightarrow> imgs[pt_image pt := Some (set_size pt vi)])
         else imgs)"

text \<open>
  The regular-point branch. The new point is shared by \<open>self.points\<close> and the current
  net's \<open>points\<close>.
\<close>

definition handle_point :: "string \<Rightarrow> load_state \<Rightarrow> load_state" where
  "handle_point stripped s =
     (case s of (L, ios, seg) \<Rightarrow>
        (let nets = les_nets L;
             net_ref = (if nets \<noteq> [] then Some (length nets - 1) else None);
             net = (if nets \<noteq> [] then last nets else Net_default);
             p = Point_init stripped (les_count_of_layer L) (les_apertures L) net_ref net None;
             pt = p\<lparr>pt_x := pt_x p * les_scale L, pt_y := pt_y p * les_scale L\<rparr>;
             k = length (les_points L);
             nets1 = (if nets \<noteq> []
                      then nets[length nets - 1 :=
                             (last nets)\<lparr>net_points := net_points (last nets) @ [k]\<rparr>]
                      else nets)
         in (L\<lparr>les_points := les_points L @ [pt], les_nets := nets1,
                les_images := update_image_box pt (les_images L)\<rparr>,
             ios, seg)))"

text \<open>
  The chain of tests at the head of the loop body, in the source's order: each test that
  succeeds ends in \<open>continue\<close>, so a line is handled by the first branch it matches.
  \<open>LayerCount\<close> carries group 1 of the layer pattern, \<open>RegularPoint\<close> the bracket-stripped
  line.
\<close>

datatype line_kind =
  Blank | TestName | LayerCount string | UnitDirective | OutlineVertex | ToolingHole
  | ApertureDef | StepDef | NetHeader | RegularPoint string | Unrecognised

definition classify :: "string \<Rightarrow> line_kind" where
  "classify line =
     (if line = [] then Blank
      else if contains line ''#ATFH'' then TestName
      else case layer_pattern line of
        Some d \<Rightarrow> LayerCount d
      | None \<Rightarrow>
          if startswith line ''UNIT'' then UnitDirective
          else if outline_pattern line then OutlineVertex
          else if tooling_pattern line then ToolingHole
          else if aperture_pattern line then ApertureDef
          else if step_pattern line then StepDef
          else if startswith line ''@'' \<and> CHR ''!'' \<notin> set line then NetHeader
          else (let stripped = strip (strip_chars ''[]'' line)
                in if point_pattern stripped then RegularPoint stripped else Unrecognised))"

text \<open>One iteration of \<open>for i, raw in enumerate(self.content)\<close>.\<close>

definition process_line :: "nat \<Rightarrow> string \<Rightarrow> load_state \<Rightarrow> py_error + load_state" where
  "process_line i raw s =
     (case s of (L, ios, seg) \<Rightarrow>
        (let line = strip raw
         in case classify line of
              Blank \<Rightarrow> Inr s
            | TestName \<Rightarrow>
                (let parts = split CHR '':'' line
                 in Inr (if length parts > 1 then (L\<lparr>les_test := parts ! 1\<rparr>, ios, seg) else s))
            | LayerCount d \<Rightarrow>
                Inr (L\<lparr>les_count_of_layer := int (digits_value d),
                       les_images := (if length (les_images L) < 2
                                      then [None, Some ViewImage_default]
                                      else les_images L)\<rparr>, ios, seg)
            | UnitDirective \<Rightarrow> Inr (handle_unit line L, ios, seg)
            | OutlineVertex \<Rightarrow> handle_outline line s
            | ToolingHole \<Rightarrow> Inr (handle_tooling i line s)
            | ApertureDef \<Rightarrow> handle_aperture line s
            | StepDef \<Rightarrow> handle_step i line s
            | NetHeader \<Rightarrow> Inr (handle_net line s)
            | RegularPoint stripped \<Rightarrow> Inr (handle_point stripped s)
            | Unrecognised \<Rightarrow> Inr s))"

fun process_lines :: "nat \<Rightarrow> string list \<Rightarrow> load_state \<Rightarrow> py_error + load_state" where
  "process_lines i [] s = Inr s"
| "process_lines i (raw # raws) s =
     bind_err (process_line i raw s) (process_lines (Suc i) raws)"

text \<open>
  \<open>load_file\<close> on the lines of the file (reading them is outside the model). The call of
  \<open>assign_panel_image_names\<close> stands inside the final \<open>if current_outline_segment:\<close>, as
  the source indents it.
\<close>

definition load_file :: "string list \<Rightarrow> Les \<Rightarrow> py_error + Les" where
  "load_file lines L0 =
     bind_err (process_lines 0 lines (L0\<lparr>les_content := lines\<rparr>, None, []))
       (\<lambda>(L, ios, seg).
          if seg \<noteq> [] then
            (let L1 = L\<lparr>les_outline_points := les_outline_points L @ [seg]\<rparr>
             in bind_err (assign_panel_image_names (les_steps L1) (les_points L1))
                  (\<lambda>pts. Inr (L1\<lparr>les_points := pts\<rparr>)))
          else Inr L)"

section \<open>LES step transform (\<open>LesStep.apply_transformation\<close>)\<close>

text \<open>
  The loop over \<open>self.operations\<close> with its three running variables. Both mirror branches
  read \<open>point.layer\<close> and \<open>point.count_of_layer\<close>, which every \<open>Point\<close> has, so the
  \<open>hasattr\<close> tests are true.
\<close>

fun apply_ops :: "Point \<Rightarrow> string \<Rightarrow> real \<times> real \<times> int \<Rightarrow> real \<times> real \<times> int" where
  "apply_ops p [] s = s"
| "apply_ops p (opc # ops) (x, y, l) =
     apply_ops p ops
       (if opc = CHR ''D'' then (y, - x, l)
        else if opc = CHR ''X'' then (x, - y, (1 - layer p) + count_of_layer p)
        else if opc = CHR ''Y'' then (- x, y, (1 - layer p) + count_of_layer p)
        else (x, y, l))"

definition apply_transformation :: "LesStep \<Rightarrow> Point \<Rightarrow> int \<Rightarrow> real \<times> real \<times> int" where
  "apply_transformation st p step_index =
     (case apply_ops p (operations st) (pt_x p, pt_y p, layer p) of
        (x, y, l) \<Rightarrow>
          (x + (offset_x st + of_int step_index * distance_x st),
           y + (offset_y st + of_int step_index * distance_y st),
           l))"

text \<open>
  The transform as the specification words it: every operator acts on the running
  triple, the mirrors replacing the running layer \<open>l\<close> by \<open>(1 - l) + count_of_layer\<close>.
\<close>

definition spec_op :: "int \<Rightarrow> char \<Rightarrow> real \<times> real \<times> int \<Rightarrow> real \<times> real \<times> int" where
  "spec_op col opc s =
     (case s of (x, y, l) \<Rightarrow>
        if opc = CHR ''D'' then (y, - x, l)
        else if opc = CHR ''X'' then (x, - y, (1 - l) + col)
        else if opc = CHR ''Y'' then (- x, y, (1 - l) + col)
        else (x, y, l))"

definition spec_apply_transformation :: "LesStep \<Rightarrow> Point \<Rightarrow> int \<Rightarrow> real \<times> real \<times> int" where
  "spec_apply_transformation st p step_index =
     (case foldl (\<lambda>s opc. spec_op (count_of_layer p) opc s) (pt_x p, pt_y p, layer p)
             (operations st) of
        (x, y, l) \<Rightarrow>
          (x + (offset_x st + of_int step_index * distance_x st),
           y + (offset_y st + of_int step_index * distance_y st),
           l))"

section \<open>XML data model and parser (\<open>xml_parser.py\<close>)\<close>

text \<open>
  The element tree that \<open>ET.parse\<close> returns: tag, attributes, children in document order.
  Building the tree from the file is outside the model. \<open>el.get(k)\<close> is \<open>map_of\<close> on the
  attributes, \<open>el.findall(tag)\<close> the children of that tag, \<open>el.find(tag)\<close> the first of them.
\<close>

datatype xml = Element (tag: string) (attrib: "(string \<times> string) list") (children: "xml list")

definition get_attr :: "xml \<Rightarrow> string \<Rightarrow> string option" where
  "get_attr el k = map_of (attrib el) k"

definition findall :: "string \<Rightarrow> xml \<Rightarrow> xml list" where
  "findall t el = filter (\<lambda>c. tag c = t) (children el)"

definition find_child :: "string \<Rightarrow> xml \<Rightarrow> xml option" where
  "find_child t el = (case findall t el of [] \<Rightarrow> None | c # _ \<Rightarrow> Some c)"

text \<open>\<open>float(el.get(k, 0))\<close>: 0.0 for a missing attribute, \<open>ValueError\<close> for a bad one.\<close>

definition float_attr :: "xml \<Rightarrow> string \<Rightarrow> py_error + real" where
  "float_attr el k = (case get_attr el k of None \<Rightarrow> Inr 0 | Some v \<Rightarrow> need_float v)"

fun map_err :: "('a \<Rightarrow> py_error + 'b) \<Rightarrow> 'a list \<Rightarrow> py_error + 'b list" where
  "map_err f [] = Inr []"
| "map_err f (x # xs) = bind_err (f x) (\<lambda>y. bind_err (map_err f xs) (\<lambda>ys. Inr (y # ys)))"

record Edge =
  e_id :: "string option"
  e_type :: "string option"
  e_xs :: real
  e_ys :: real
  e_xe :: real
  e_ye :: real
  e_xc :: real
  e_yc :: real
  e_radius :: real
  e_direction :: string

record Repeat =
  rp_id :: "string option"
  rp_pos_num :: "string option"
  rp_step :: "string option"
  rp_x :: real
  rp_y :: real
  rp_angle :: real
  rp_number :: string

record Barcode =
  bc_num :: "string option"
  bc_layercode :: "string option"
  bc_layerface :: "string option"
  bc_content :: "string option"
  bc_polarity :: "string option"
  bc_id :: "string option"
  bc_x :: real
  bc_y :: real
  bc_width :: real
  bc_height :: real

record Layer =
  ly_name :: "string option"
  barcode_list :: "Barcode list"

record Step =
  step_name :: "string option"
  step_type :: "string option"
  step_x :: real
  step_y :: real
  step_width :: real
  step_height :: real
  edges :: "Edge list"
  repeats :: "Repeat list"
  layers :: "Layer list"

text \<open>\<open>Drawing.steps\<close> is a dictionary in insertion order, keyed by \<open>Step.name\<close>.\<close>

record Drawing =
  dr_job :: string
  dr_width :: real
  dr_height :: real
  dr_start_step :: "string option"
  dr_steps :: "(string option \<times> Step) list"

definition Edge_init :: "xml \<Rightarrow> py_error + Edge" where
  "Edge_init el =
     bind_err (float_attr el ''xs'') (\<lambda>xs.
     bind_err (float_attr el ''ys'') (\<lambda>ys.
     bind_err (float_attr el ''xe'') (\<lambda>xe.
     bind_err (float_attr el ''ye'') (\<lambda>ye.
     bind_err (float_attr el ''xc'') (\<lambda>xc.
     bind_err (float_attr el ''yc'') (\<lambda>yc.
     bind_err (float_attr el ''radius'') (\<lambda>r.
       Inr \<lparr>e_id = get_attr el ''id'', e_type = get_attr el ''type'', e_xs = xs, e_ys = ys,
            e_xe = xe, e_ye = ye, e_xc = xc, e_yc = yc, e_radius = r,
            e_direction = (case get_attr el ''direction'' of None \<Rightarrow> ''cw'' | Some d \<Rightarrow> d)\<rparr>)))))))"

definition Repeat_init :: "xml \<Rightarrow> py_error + Repeat" where
  "Repeat_init el =
     bind_err (float_attr el ''x'') (\<lambda>x.
     bind_err (float_attr el ''y'') (\<lambda>y.
     bind_err (float_attr el ''angle'') (\<lambda>a.
       Inr \<lparr>rp_id = get_attr el ''id'', rp_pos_num = get_attr el ''pos_num'',
            rp_step = get_attr el ''step'', rp_x = x, rp_y = y, rp_angle = a,
            rp_number = (case get_attr el ''number'' of None \<Rightarrow> [] | Some n \<Rightarrow> n)\<rparr>)))"

definition Barcode_init :: "xml \<Rightarrow> py_error + Barcode" where
  "Barcode_init el =
     bind_err (float_attr el ''x'') (\<lambda>x.
     bind_err (float_attr el ''y'') (\<lambda>y.
     bind_err (float_attr el ''width'') (\<lambda>w.
     bind_err (float_attr el ''height'') (\<lambda>h.
       Inr \<lparr>bc_num = get_attr el ''num'', bc_layercode = get_attr el ''layercode'',
            bc_layerface = get_attr el ''layerface'', bc_content = get_attr el ''content'',
            bc_polarity = get_attr el ''polarity'', bc_id = get_attr el ''id'',
            bc_x = x, bc_y = y, bc_width = w, bc_height = h\<rparr>))))"

definition Layer_init :: "xml \<Rightarrow> py_error + Layer" where
  "Layer_init el =
     bind_err (map_err Barcode_init (findall ''barcode'' el))
       (\<lambda>bcs. Inr \<lparr>ly_name = get_attr el ''name'', barcode_list = bcs\<rparr>)"

definition Step_init :: "xml \<Rightarrow> py_error + Step" where
  "Step_init el =
     bind_err (float_attr el ''x'') (\<lambda>x.
     bind_err (float_attr el ''y'') (\<lambda>y.
     bind_err (float_attr el ''width'') (\<lambda>w.
     bind_err (float_attr el ''height'') (\<lambda>h.
     bind_err (map_err Edge_init (findall ''edge'' el)) (\<lambda>es.
     bind_err (map_err Repeat_init (findall ''repeat'' el)) (\<lambda>rs.
     bind_err (map_err Layer_init (findall ''layer'' el)) (\<lambda>ls.
       Inr \<lparr>step_name = get_attr el ''name'', step_type = get_attr el ''type'',
            step_x = x, step_y = y, step_width = w, step_height = h,
            edges = es, repeats = rs, layers = ls\<rparr>)))))))"

text \<open>The loop \<open>for step_element in root.findall('step'): self.steps[st.name] = st\<close>.\<close>

fun add_steps ::
    "xml list \<Rightarrow> (string option \<times> Step) list \<Rightarrow> py_error + (string option \<times> Step) list" where
  "add_steps [] d = Inr d"
| "add_steps (el # els) d =
     bind_err (Step_init el) (\<lambda>st. add_steps els (dict_set (step_name st) st d))"

text \<open>
  \<open>Drawing.parse_xml\<close> on the root element; \<open>base_name\<close> is \<open>os.path.basename(file_path)\<close>.
  \<open>start_step\<close> starts as the empty string; \<open>not self.start_step\<close> holds for \<open>None\<close> and
  for the empty string.
\<close>

definition parse_xml :: "xml \<Rightarrow> string \<Rightarrow> py_error + Drawing" where
  "parse_xml root_el base_name =
     (let job = (case get_attr root_el ''job'' of
                   None \<Rightarrow> base_name
                 | Some j \<Rightarrow> if j = [] then base_name else j)
      in bind_err (float_attr root_el ''width'') (\<lambda>w.
         bind_err (float_attr root_el ''height'') (\<lambda>h.
           let start = (case find_child ''start'' root_el of
                          None \<Rightarrow> Some []
                        | Some start_elem \<Rightarrow> get_attr start_elem ''step'')
           in bind_err (add_steps (findall ''step'' root_el) []) (\<lambda>steps.
                Inr \<lparr>dr_job = job, dr_width = w, dr_height = h,
                     dr_start_step =
                       (if (start = None \<or> start = Some []) \<and> steps \<noteq> []
                        then fst (hd steps) else start),
                     dr_steps = steps\<rparr>))))"

text \<open>
  The step that wins a name, in the specification's words: the last \<open>step\<close> element of
  that name.
\<close>

definition last_named :: "string option \<Rightarrow> Step list \<Rightarrow> Step option" where
  "last_named n sts =
     (case filter (\<lambda>st. step_name st = n) sts of [] \<Rightarrow> None | st # rest \<Rightarrow> Some (last (st # rest)))"

section \<open>Geometry kernel (\<open>xml_drawing.py\<close>)\<close>

definition rotate_translate :: "real \<Rightarrow> real \<Rightarrow> real \<Rightarrow> real \<Rightarrow> real \<Rightarrow> real \<times> real" where
  "rotate_translate x y angle_rad off_x off_y =
     (let xr = x * cos angle_rad - y * sin angle_rad + off_x;
          yr = y * cos angle_rad + x * sin angle_rad + off_y
      in (xr, yr))"

text \<open>\<open>a % m\<close> on floats for a positive \<open>m\<close>, \<open>math.degrees\<close>, \<open>math.radians\<close>, \<open>int(x)\<close>.\<close>

definition py_mod :: "real \<Rightarrow> real \<Rightarrow> real" where
  "py_mod a m = a - m * of_int \<lfloor>a / m\<rfloor>"

definition degrees :: "real \<Rightarrow> real" where
  "degrees r = r * 180 / pi"

definition radians :: "real \<Rightarrow> real" where
  "radians d = d * pi / 180"

definition py_trunc :: "real \<Rightarrow> int" where
  "py_trunc x = (if 0 \<le> x then \<lfloor>x\<rfloor> else \<lceil>x\<rceil>)"

text \<open>\<open>math.atan2(y, x)\<close>: the argument of the point \<open>(x, y)\<close>, 0 at the origin.\<close>

definition atan2 :: "real \<Rightarrow> real \<Rightarrow> real" where
  "atan2 y x = Arg (Complex x y)"

definition lower_char :: "char \<Rightarrow> char" where
  "lower_char c =
     (case map_of (zip ''ABCDEFGHIJKLMNOPQRSTUVWXYZ'' ''abcdefghijklmnopqrstuvwxyz'') c of
        Some l \<Rightarrow> l
      | None \<Rightarrow> c)"

definition lower :: "string \<Rightarrow> string" where
  "lower s = map lower_char s"

definition normalize_deg :: "real \<Rightarrow> real" where
  "normalize_deg a = (let a1 = py_mod a 360 in if a1 < 0 then a1 + 360 else a1)"

definition angle_in_sweep :: "real \<Rightarrow> real \<Rightarrow> real \<Rightarrow> string \<Rightarrow> bool" where
  "angle_in_sweep a a0 a1 direction =
     (let a' = normalize_deg a; b0 = normalize_deg a0; b1 = normalize_deg a1;
          s0 = (if lower direction = ''cw'' then b1 else b0);
          s1 = (if lower direction = ''cw'' then b0 else b1);
          span = py_mod (s1 - s0) 360;
          rel = py_mod (a' - s0) 360
      in rel \<le> span + 1 / 10 ^ 9)"

definition angle_deg_math :: "real \<Rightarrow> real \<Rightarrow> real \<Rightarrow> real \<Rightarrow> real" where
  "angle_deg_math cx cy x y = py_mod (degrees (atan2 (cy - y) (x - cx))) 360"

definition xml_dir_to_math :: "string \<Rightarrow> string" where
  "xml_dir_to_math d = (if lower d = ''cw'' then ''ccw'' else ''cw'')"

text \<open>The sample angle and sample point number \<open>i\<close> of an arc polyline.\<close>

definition circle_point :: "real \<Rightarrow> real \<Rightarrow> real \<Rightarrow> real \<Rightarrow> real \<times> real" where
  "circle_point cx cy r a = (cx + r * cos a, cy - r * sin a)"

definition arc_polyline_world_points ::
    "real \<Rightarrow> real \<Rightarrow> real \<Rightarrow> real \<Rightarrow> real \<Rightarrow> real \<Rightarrow> string \<Rightarrow> (real \<times> real) list" where
  "arc_polyline_world_points zoom cx cy r start_deg_math end_deg_math direction =
     (let delta_deg = (if lower direction = ''ccw''
                       then py_mod (end_deg_math - start_deg_math) 360
                       else - py_mod (start_deg_math - end_deg_math) 360);
          arc_len_px = \<bar>radians delta_deg\<bar> * max (r * zoom) 1;
          n0 = max 12 (min 512 (py_trunc (arc_len_px / 3)));
          num_segments = nat (if n0 < 2 then 2 else n0);
          step_rad = radians delta_deg / real num_segments;
          start_rad = radians start_deg_math
      in map (\<lambda>i. circle_point cx cy r (start_rad + real i * step_rad))
           [0 ..< num_segments + 1])"

section \<open>XML repeat resolver: the draw walk\<close>

text \<open>
  The part of the canvas the walks read: the three visibility flags and the zoom. The
  drawing is the current one, \<open>canvas.xml_drawings[canvas.current_xml_drawing_idx]\<close>.
\<close>

record Canvas =
  show_xml_edges :: bool
  show_xml_repeats :: bool
  show_xml_barcodes :: bool
  zoom_level :: real

type_synonym color = "nat \<times> nat \<times> nat"

definition OUTLINE_COLORS :: "color list" where
  "OUTLINE_COLORS =
     [(0, 255, 255), (255, 215, 0), (50, 205, 50), (255, 99, 71),
      (65, 105, 225), (255, 105, 180), (138, 43, 226), (32, 178, 170)]"

definition STEP_TYPE_COLORS :: "(string \<times> color) list" where
  "STEP_TYPE_COLORS =
     [(''panel'', (255, 215, 0)), (''set'', (65, 105, 225)), (''pcs'', (50, 205, 50)),
      (''kb'', (255, 99, 71)), (''edit'', (138, 43, 226))]"

definition step_color :: "string option \<Rightarrow> nat \<Rightarrow> color" where
  "step_color ty depth =
     (case (case ty of None \<Rightarrow> None | Some t \<Rightarrow> map_of STEP_TYPE_COLORS t) of
        Some c \<Rightarrow> c
      | None \<Rightarrow> OUTLINE_COLORS ! (depth mod length OUTLINE_COLORS))"

text \<open>
  What the painter is asked to draw. Every position is the world position that the source
  hands to \<open>canvas.world_to_screen\<close>; a rectangle carries the barcode's width and height
  (the source multiplies both by the zoom for the screen), a text the barcode's anchor.
\<close>

datatype draw_cmd =
    DrawLine color "real \<times> real" "real \<times> real"
  | DrawPolyline color "(real \<times> real) list"
  | DrawRect "real \<times> real" real real
  | DrawText "real \<times> real" string

text \<open>\<open>math.hypot(sx - cx, sy - cy) or max(e.radius, 0.0)\<close>\<close>

definition arc_radius :: "real \<Rightarrow> real \<Rightarrow> real \<Rightarrow> real \<Rightarrow> Edge \<Rightarrow> real" where
  "arc_radius sx sy cx cy e =
     (let h = sqrt ((sx - cx)\<^sup>2 + (sy - cy)\<^sup>2) in if h \<noteq> 0 then h else max (e_radius e) 0)"

definition draw_edge :: "real \<Rightarrow> color \<Rightarrow> real \<Rightarrow> real \<Rightarrow> real \<Rightarrow> Edge \<Rightarrow> draw_cmd list" where
  "draw_edge zoom col angle_rad world_off_x world_off_y e =
     (if e_type e = Some ''line'' then
        [DrawLine col (rotate_translate (e_xs e) (e_ys e) angle_rad world_off_x world_off_y)
                      (rotate_translate (e_xe e) (e_ye e) angle_rad world_off_x world_off_y)]
      else if e_type e = Some ''arc'' then
        (case (rotate_translate (e_xs e) (e_ys e) angle_rad world_off_x world_off_y,
               rotate_translate (e_xe e) (e_ye e) angle_rad world_off_x world_off_y,
               rotate_translate (e_xc e) (e_yc e) angle_rad world_off_x world_off_y) of
           ((sx, sy), (ex, ey), (cx, cy)) \<Rightarrow>
             (let r = arc_radius sx sy cx cy e;
                  a0 = angle_deg_math cx cy sx sy;
                  a1 = angle_deg_math cx cy ex ey;
                  direction_math = xml_dir_to_math (e_direction e);
                  pts_world = arc_polyline_world_points zoom cx cy r a0 a1 direction_math
              in if length pts_world > 1 then [DrawPolyline col pts_world] else []))
      else [])"

definition draw_barcode :: "real \<Rightarrow> real \<Rightarrow> real \<Rightarrow> Barcode \<Rightarrow> draw_cmd list" where
  "draw_barcode angle_rad world_off_x world_off_y bc =
     (let b = rotate_translate (bc_x bc) (bc_y bc) angle_rad world_off_x world_off_y
      in DrawRect b (bc_width bc) (bc_height bc)
         # (case bc_content bc of
              None \<Rightarrow> []
            | Some txt \<Rightarrow> if txt \<noteq> [] then [DrawText b txt] else []))"

text \<open>
  \<open>_draw_xml_step_recursive(canvas, qp, step, base_angle_deg, world_off_x, world_off_y,
  color, depth=0)\<close>. The first argument is the number of stack frames Python still allows;
  a call with none left raises \<open>RecursionError\<close>. The recursive call passes seven positional
  arguments, so \<open>depth + 1\<close> arrives in the parameter \<open>color\<close> and \<open>depth\<close> takes its
  default 0; the parameter \<open>color\<close> is overwritten before it is read.
\<close>

fun draw_xml_step_recursive ::
    "nat \<Rightarrow> Canvas \<Rightarrow> Drawing \<Rightarrow> Step \<Rightarrow> real \<Rightarrow> real \<Rightarrow> real \<Rightarrow> nat \<Rightarrow> nat
       \<Rightarrow> py_error + draw_cmd list" where
  "draw_xml_step_recursive 0 canvas drawing step base_angle_deg world_off_x world_off_y
     color_arg depth = Inl RecursionError"
| "draw_xml_step_recursive (Suc frames) canvas drawing step base_angle_deg world_off_x
     world_off_y color_arg depth =
     (if depth > 50 then Inr []
      else
        (let col = step_color (step_type step) depth;
             angle_rad = - base_angle_deg * pi / 180;
             es = (if show_xml_edges canvas
                   then concat (map (draw_edge (zoom_level canvas) col angle_rad
                                       world_off_x world_off_y) (edges step))
                   else []);
             bs = (if show_xml_barcodes canvas
                   then concat (map (\<lambda>ly. concat (map (draw_barcode angle_rad world_off_x
                                                          world_off_y) (barcode_list ly)))
                                  (layers step))
                   else [])
         in if show_xml_repeats canvas then
              bind_err
                (map_err
                   (\<lambda>rpt. case map_of (dr_steps drawing) (rp_step rpt) of
                            None \<Rightarrow> Inr []
                          | Some sub \<Rightarrow>
                              (case rotate_translate (rp_x rpt) (rp_y rpt) angle_rad
                                      world_off_x world_off_y of
                                 (rx, ry) \<Rightarrow>
                                   draw_xml_step_recursive frames canvas drawing sub
                                     (base_angle_deg + rp_angle rpt) rx ry (depth + 1) 0))
                   (repeats step))
                (\<lambda>subs. Inr (es @ bs @ concat subs))
            else Inr (es @ bs)))"

text \<open>The root call of \<open>draw_xml\<close>.\<close>

definition draw_xml_walk :: "nat \<Rightarrow> Canvas \<Rightarrow> Drawing \<Rightarrow> Step \<Rightarrow> py_error + draw_cmd list" where
  "draw_xml_walk frames canvas drawing step =
     draw_xml_step_recursive frames canvas drawing step 0 (- step_x step) (- step_y step) 0 0"

section \<open>XML bounds engine: the two bounds walks\<close>

text \<open>
  \<open>bounds\<close> is the list \<open>[inf, inf, -inf, -inf]\<close> until the first box is added and four finite
  numbers afterwards: \<open>None\<close> is the initial list, \<open>Some (minx, miny, maxx, maxy)\<close> a finite
  one. Every box handed to \<open>add_bounds\<close> is finite, so its test \<open>b[0] != float('inf')\<close>
  holds, and \<open>min\<close> and \<open>max\<close> against the initial list return the box itself.
\<close>

type_synonym box = "real \<times> real \<times> real \<times> real"

definition add_bounds :: "box \<Rightarrow> box option \<Rightarrow> box option" where
  "add_bounds b bounds =
     (case bounds of
        None \<Rightarrow> Some b
      | Some (x0, y0, x1, y1) \<Rightarrow>
          (case b of (b0, b1, b2, b3) \<Rightarrow> Some (min x0 b0, min y0 b1, max x1 b2, max y1 b3)))"

text \<open>
  \<open>arc_bounds\<close>: the list \<open>pts\<close> that its two loops build (the two end angles, then the
  cardinal angles inside the sweep), and the box of that list.
\<close>

definition arc_pts :: "real \<Rightarrow> real \<Rightarrow> real \<Rightarrow> real \<Rightarrow> real \<Rightarrow> string \<Rightarrow> (real \<times> real) list" where
  "arc_pts cx cy r a0 a1 direction =
     map (\<lambda>ang. circle_point cx cy r (radians ang)) [a0, a1]
     @ map (\<lambda>ang. circle_point cx cy r (radians ang))
         (filter (\<lambda>ang. angle_in_sweep ang a0 a1 direction) [0, 90, 180, 270])"

definition arc_bounds :: "real \<Rightarrow> real \<Rightarrow> real \<Rightarrow> real \<Rightarrow> real \<Rightarrow> string \<Rightarrow> box" where
  "arc_bounds cx cy r a0 a1 direction =
     (let pts = arc_pts cx cy r a0 a1 direction;
          xs = map fst pts;
          ys = map snd pts
      in (Min (set xs), Min (set ys), Max (set xs), Max (set ys)))"

definition edge_bounds :: "real \<Rightarrow> real \<Rightarrow> real \<Rightarrow> Edge \<Rightarrow> box option \<Rightarrow> box option" where
  "edge_bounds ang off_x off_y e bounds =
     (if e_type e = Some ''line'' then
        (case (rotate_translate (e_xs e) (e_ys e) ang off_x off_y,
               rotate_translate (e_xe e) (e_ye e) ang off_x off_y) of
           ((sx, sy), (ex, ey)) \<Rightarrow>
             add_bounds (min sx ex, min sy ey, max sx ex, max sy ey) bounds)
      else if e_type e = Some ''arc'' then
        (case (rotate_translate (e_xs e) (e_ys e) ang off_x off_y,
               rotate_translate (e_xe e) (e_ye e) ang off_x off_y,
               rotate_translate (e_xc e) (e_yc e) ang off_x off_y) of
           ((sx, sy), (ex, ey), (cx, cy)) \<Rightarrow>
             (let r = arc_radius sx sy cx cy e;
                  a0 = angle_deg_math cx cy sx sy;
                  a1 = angle_deg_math cx cy ex ey;
                  dir_math = xml_dir_to_math (e_direction e)
              in add_bounds (arc_bounds cx cy r a0 a1 dir_math) bounds))
      else bounds)"

definition barcode_bounds :: "real \<Rightarrow> real \<Rightarrow> real \<Rightarrow> Barcode \<Rightarrow> box option \<Rightarrow> box option" where
  "barcode_bounds ang off_x off_y bc bounds =
     (case rotate_translate (bc_x bc) (bc_y bc) ang off_x off_y of
        (bx, by) \<Rightarrow> add_bounds (bx, by, bx + bc_width bc, by + bc_height bc) bounds)"

text \<open>The edge loop and the barcode loops of \<open>compute_step_bounds\<close>, the same in both walks.\<close>

definition step_local_bounds ::
    "Canvas \<Rightarrow> Step \<Rightarrow> real \<Rightarrow> real \<Rightarrow> real \<Rightarrow> box option \<Rightarrow> box option" where
  "step_local_bounds canvas st ang off_x off_y bounds =
     (let b1 = (if show_xml_edges canvas
                then foldl (\<lambda>b e. edge_bounds ang off_x off_y e b) bounds (edges st)
                else bounds)
      in if show_xml_barcodes canvas
         then foldl (\<lambda>b ly. foldl (\<lambda>b bc. barcode_bounds ang off_x off_y bc b) b
                               (barcode_list ly))
                b1 (layers st)
         else b1)"

fun fold_err :: "('a \<Rightarrow> 's \<Rightarrow> py_error + 's) \<Rightarrow> 'a list \<Rightarrow> 's \<Rightarrow> py_error + 's" where
  "fold_err f [] s = Inr s"
| "fold_err f (x # xs) s = bind_err (f x s) (fold_err f xs)"

text \<open>
  \<open>compute_step_bounds\<close> inside \<open>fit_step(canvas, include_repeats)\<close>. It receives \<open>depth\<close>
  and never tests it. The frames argument is as in the draw walk.
\<close>

fun compute_step_bounds ::
    "nat \<Rightarrow> Canvas \<Rightarrow> Drawing \<Rightarrow> bool \<Rightarrow> Step \<Rightarrow> real \<Rightarrow> real \<Rightarrow> real \<Rightarrow> nat \<Rightarrow> box option
       \<Rightarrow> py_error + box option" where
  "compute_step_bounds 0 canvas drawing include_repeats st base_angle_deg off_x off_y depth
     bounds = Inl RecursionError"
| "compute_step_bounds (Suc frames) canvas drawing include_repeats st base_angle_deg off_x
     off_y depth bounds =
     (let ang = - base_angle_deg * pi / 180;
          b = step_local_bounds canvas st ang off_x off_y bounds
      in if include_repeats \<and> show_xml_repeats canvas then
           fold_err
             (\<lambda>rpt b. case map_of (dr_steps drawing) (rp_step rpt) of
                         None \<Rightarrow> Inr b
                       | Some sub \<Rightarrow>
                           (case rotate_translate (rp_x rpt) (rp_y rpt) ang off_x off_y of
                              (rx, ry) \<Rightarrow>
                                compute_step_bounds frames canvas drawing include_repeats sub
                                  (base_angle_deg + rp_angle rpt) rx ry (depth + 1) b))
             (repeats st) b
         else Inr b)"

text \<open>The root call of \<open>fit_step\<close>, up to the test \<open>bounds[0] == float('inf')\<close>.\<close>

definition fit_step_bounds ::
    "nat \<Rightarrow> Canvas \<Rightarrow> Drawing \<Rightarrow> bool \<Rightarrow> Step \<Rightarrow> py_error + box option" where
  "fit_step_bounds frames canvas drawing include_repeats step =
     compute_step_bounds frames canvas drawing include_repeats step 0
       (- step_x step) (- step_y step) 0 None"

text \<open>
  \<open>compute_step_bounds\<close> inside \<open>ViewerCanvasCore.fit_all\<close>: the same body without the
  \<open>include_repeats\<close> gate.
\<close>

fun fit_all_compute_step_bounds ::
    "nat \<Rightarrow> Canvas \<Rightarrow> Drawing \<Rightarrow> Step \<Rightarrow> real \<Rightarrow> real \<Rightarrow> real \<Rightarrow> nat \<Rightarrow> box option
       \<Rightarrow> py_error + box option" where
  "fit_all_compute_step_bounds 0 canvas drawing st base_angle_deg off_x off_y depth bounds =
     Inl RecursionError"
| "fit_all_compute_step_bounds (Suc frames) canvas drawing st base_angle_deg off_x off_y depth
     bounds =
     (let ang = - base_angle_deg * pi / 180;
          b = step_local_bounds canvas st ang off_x off_y bounds
      in if show_xml_repeats canvas then
           fold_err
             (\<lambda>rpt b. case map_of (dr_steps drawing) (rp_step rpt) of
                         None \<Rightarrow> Inr b
                       | Some sub \<Rightarrow>
                           (case rotate_translate (rp_x rpt) (rp_y rpt) ang off_x off_y of
                              (rx, ry) \<Rightarrow>
                                fit_all_compute_step_bounds frames canvas drawing sub
                                  (base_angle_deg + rp_angle rpt) rx ry (depth + 1) b))
             (repeats st) b
         else Inr b)"

section \<open>Predicates used in the statements\<close>

text \<open>
  What the two construction paths establish for \<open>is_enable\<close>: the regular path computes
  it from the layer, the tooling path switches it off and fixes the layer to 1.
\<close>

definition enable_rule :: "Point \<Rightarrow> bool" where
  "enable_rule p \<longleftrightarrow>
     (if pt_style p = NORMAL then is_enable p = (layer p = 1 \<or> layer p = count_of_layer p)
      else \<not> is_enable p \<and> layer p = 1)"

text \<open>A point lies in the accumulated box; one accumulated box lies inside another.\<close>

definition box_contains :: "box option \<Rightarrow> real \<times> real \<Rightarrow> bool" where
  "box_contains bounds p =
     (case bounds of
        None \<Rightarrow> False
      | Some (x0, y0, x1, y1) \<Rightarrow> x0 \<le> fst p \<and> fst p \<le> x1 \<and> y0 \<le> snd p \<and> snd p \<le> y1)"

definition box_le :: "box option \<Rightarrow> box option \<Rightarrow> bool" where
  "box_le a b =
     (case a of
        None \<Rightarrow> True
      | Some (x0, y0, x1, y1) \<Rightarrow>
          (case b of
             None \<Rightarrow> False
           | Some (u0, v0, u1, v1) \<Rightarrow> u0 \<le> x0 \<and> v0 \<le> y0 \<and> x1 \<le> u1 \<and> y1 \<le> v1))"

text \<open>
  The world positions of a draw command: the ends of a line, the samples of a polyline,
  the four corners of a rectangle. A text has none: the source places it in screen space,
  4 pixels above the screen position of the anchor.
\<close>

fun cmd_vertices :: "draw_cmd \<Rightarrow> (real \<times> real) list" where
  "cmd_vertices (DrawLine c p q) = [p, q]"
| "cmd_vertices (DrawPolyline c pts) = pts"
| "cmd_vertices (DrawRect b w h) =
     [b, (fst b + w, snd b), (fst b, snd b + h), (fst b + w, snd b + h)]"
| "cmd_vertices (DrawText b txt) = []"

definition vertices :: "draw_cmd list \<Rightarrow> (real \<times> real) list" where
  "vertices cmds = concat (map cmd_vertices cmds)"

text \<open>No barcode of the step has a negative width or height.\<close>

definition sizes_nonneg :: "Step \<Rightarrow> bool" where
  "sizes_nonneg st =
     list_all (\<lambda>ly. list_all (\<lambda>bc. 0 \<le> bc_width bc \<and> 0 \<le> bc_height bc) (barcode_list ly))
       (layers st)"

text \<open>
  The repeat graph below a step is acyclic and its longest chain of repeats fits into the
  given number of stack frames.
\<close>

fun fits_frames :: "Drawing \<Rightarrow> nat \<Rightarrow> Step \<Rightarrow> bool" where
  "fits_frames d 0 st = False"
| "fits_frames d (Suc n) st =
     list_all (\<lambda>rpt. case map_of (dr_steps d) (rp_step rpt) of
                       None \<Rightarrow> True
                     | Some sub \<Rightarrow> fits_frames d n sub)
       (repeats st)"

text \<open>
  The commands that one call of the draw walk emits for its own step, before it descends:
  the edge loop, then the barcode loops.
\<close>

definition local_draw :: "Canvas \<Rightarrow> Step \<Rightarrow> color \<Rightarrow> real \<Rightarrow> real \<Rightarrow> real \<Rightarrow> draw_cmd list" where
  "local_draw canvas step col angle_rad ox oy =
     (if show_xml_edges canvas
      then concat (map (draw_edge (zoom_level canvas) col angle_rad ox oy) (edges step))
      else [])
     @ (if show_xml_barcodes canvas
        then concat (map (\<lambda>ly. concat (map (draw_barcode angle_rad ox oy) (barcode_list ly)))
                       (layers step))
        else [])"

text \<open>
  The circle of an arc edge in a frame, as both walks compute it: center, radius, the two
  end angles and the direction in math convention.
\<close>

definition arc_geometry ::
    "real \<Rightarrow> real \<Rightarrow> real \<Rightarrow> Edge \<Rightarrow> real \<times> real \<times> real \<times> real \<times> real \<times> string" where
  "arc_geometry ang off_x off_y e =
     (case (rotate_translate (e_xs e) (e_ys e) ang off_x off_y,
            rotate_translate (e_xe e) (e_ye e) ang off_x off_y,
            rotate_translate (e_xc e) (e_yc e) ang off_x off_y) of
        ((sx, sy), (ex, ey), (cx, cy)) \<Rightarrow>
          (cx, cy, arc_radius sx sy cx cy e, angle_deg_math cx cy sx sy,
           angle_deg_math cx cy ex ey, xml_dir_to_math (e_direction e)))"

text \<open>
  The steps that a root step holds, each with the frame in which it is placed: the root
  step itself with base angle 0 and offset \<open>(-step.x, -step.y)\<close>, and, where the descent
  into repeats is switched on, every step that a repeat of a placed step names in
  \<open>drawing.steps\<close>, with the base angle increased by the repeat's angle and the offset at
  the repeat's position rotated and translated by the parent frame.
\<close>

inductive placed :: "Drawing \<Rightarrow> bool \<Rightarrow> Step \<Rightarrow> Step \<Rightarrow> real \<Rightarrow> real \<Rightarrow> real \<Rightarrow> bool"
  for d :: Drawing and descend :: bool and root_step :: Step where
  placed_root: "placed d descend root_step root_step 0 (- step_x root_step) (- step_y root_step)"
| placed_repeat:
    "placed d descend root_step st base ox oy \<Longrightarrow> descend \<Longrightarrow> rpt \<in> set (repeats st) \<Longrightarrow>
     map_of (dr_steps d) (rp_step rpt) = Some sub \<Longrightarrow>
     rotate_translate (rp_x rpt) (rp_y rpt) (- base * pi / 180) ox oy = (rx, ry) \<Longrightarrow>
     placed d descend root_step sub (base + rp_angle rpt) rx ry"

code_pred placed .

section \<open>Example inputs\<close>

text \<open>
  A point at (3, 5) on layer 1 of 2, and a step that applies a given operator chain once
  with no offset.
\<close>

definition sample_point :: Point where
  "sample_point = (Point_fields [] 2 None None)\<lparr>pt_x := 3, pt_y := 5\<rparr>"

definition chain_step :: "string \<Rightarrow> LesStep" where
  "chain_step ops =
     \<lparr>amount = 1, operations = ops, offset_x = 0, offset_y = 0, distance_x = 0,
      distance_y = 0, step_image = 1, tooltip = []\<rparr>"

text \<open>A drawing with three steps, two of them named \<open>A\<close>, and no \<open>start\<close> element.\<close>

definition duplicate_names_doc :: xml where
  "duplicate_names_doc =
     Element ''emap'' [(''job'', ''J1'')]
       [Element ''step'' [(''name'', ''A''), (''x'', ''1'')] [],
        Element ''step'' [(''name'', ''B'')] [],
        Element ''step'' [(''name'', ''A''), (''x'', ''2'')] []]"

text \<open>The flags and zoom that \<open>ViewerCanvasCore.__init__\<close> sets.\<close>

definition Canvas_init :: Canvas where
  "Canvas_init =
     \<lparr>show_xml_edges = True, show_xml_repeats = True, show_xml_barcodes = True,
      zoom_level = 1\<rparr>"

text \<open>A drawing whose only step \<open>A\<close> repeats itself.\<close>

definition self_repeat_doc :: xml where
  "self_repeat_doc =
     Element ''emap'' []
       [Element ''step'' [(''name'', ''A'')] [Element ''repeat'' [(''step'', ''A'')] []]]"

definition self_repeat_step :: Step where
  "self_repeat_step =
     \<lparr>step_name = Some ''A'', step_type = None, step_x = 0, step_y = 0, step_width = 0,
      step_height = 0, edges = [],
      repeats = [\<lparr>rp_id = None, rp_pos_num = None, rp_step = Some ''A'', rp_x = 0, rp_y = 0,
                  rp_angle = 0, rp_number = []\<rparr>],
      layers = []\<rparr>"

definition self_repeat_drawing :: Drawing where
  "self_repeat_drawing =
     \<lparr>dr_job = ''c.xml'', dr_width = 0, dr_height = 0, dr_start_step = Some ''A'',
      dr_steps = [(Some ''A'', self_repeat_step)]\<rparr>"

definition line_edge :: "real \<Rightarrow> real \<Rightarrow> real \<Rightarrow> real \<Rightarrow> Edge" where
  "line_edge xs ys xe ye =
     \<lparr>e_id = None, e_type = Some ''line'', e_xs = xs, e_ys = ys, e_xe = xe, e_ye = ye,
      e_xc = 0, e_yc = 0, e_radius = 0, e_direction = ''cw''\<rparr>"

text \<open>Step \<open>B\<close>: one line from (0, 0) to (1, 0).\<close>

definition inner_step :: Step where
  "inner_step =
     \<lparr>step_name = Some ''B'', step_type = None, step_x = 0, step_y = 0, step_width = 0,
      step_height = 0, edges = [line_edge 0 0 1 0], repeats = [], layers = []\<rparr>"

text \<open>Step \<open>A\<close>: one line from (0, 0) to (10, 0) and a repeat of \<open>B\<close> at (5, 5).\<close>

definition outer_step :: Step where
  "outer_step =
     \<lparr>step_name = Some ''A'', step_type = None, step_x = 0, step_y = 0, step_width = 0,
      step_height = 0, edges = [line_edge 0 0 10 0],
      repeats = [\<lparr>rp_id = None, rp_pos_num = None, rp_step = Some ''B'', rp_x = 5, rp_y = 5,
                  rp_angle = 0, rp_number = []\<rparr>],
      layers = []\<rparr>"

definition nested_drawing :: Drawing where
  "nested_drawing =
     \<lparr>dr_job = ''n.xml'', dr_width = 0, dr_height = 0, dr_start_step = Some ''A'',
      dr_steps = [(Some ''A'', outer_step), (Some ''B'', inner_step)]\<rparr>"

text \<open>A step whose only content is a barcode at (0, 0) of width -5 and height 1.\<close>

definition narrow_step :: Step where
  "narrow_step =
     \<lparr>step_name = Some ''C'', step_type = None, step_x = 0, step_y = 0, step_width = 0,
      step_height = 0, edges = [], repeats = [],
      layers = [\<lparr>ly_name = None,
                 barcode_list = [\<lparr>bc_num = None, bc_layercode = None, bc_layerface = None,
                                  bc_content = None, bc_polarity = None, bc_id = None,
                                  bc_x = 0, bc_y = 0, bc_width = - 5, bc_height = 1\<rparr>]\<rparr>]\<rparr>"

definition narrow_drawing :: Drawing where
  "narrow_drawing =
     \<lparr>dr_job = ''b.xml'', dr_width = 0, dr_height = 0, dr_start_step = Some ''C'',
      dr_steps = [(Some ''C'', narrow_step)]\<rparr>"

text \<open>
  A half circle of radius 1 around the origin of step \<open>H\<close>, from (0, 1) to (0, -1); in the
  math convention it runs counter-clockwise from 270 over 0 to 90 degrees, so that (1, 0)
  lies on it and is none of its ends. Step \<open>P\<close> at (10, 0) has no edge of its own and
  repeats \<open>H\<close> at (10, 0), which places the origin of \<open>H\<close> at the world origin.
\<close>

definition half_arc :: Edge where
  "half_arc =
     \<lparr>e_id = None, e_type = Some ''arc'', e_xs = 0, e_ys = 1, e_xe = 0, e_ye = - 1,
      e_xc = 0, e_yc = 0, e_radius = 0, e_direction = ''cw''\<rparr>"

definition half_arc_step :: Step where
  "half_arc_step =
     \<lparr>step_name = Some ''H'', step_type = None, step_x = 0, step_y = 0, step_width = 0,
      step_height = 0, edges = [half_arc], repeats = [], layers = []\<rparr>"

definition panel_repeat :: Repeat where
  "panel_repeat =
     \<lparr>rp_id = None, rp_pos_num = None, rp_step = Some ''H'', rp_x = 10, rp_y = 0,
      rp_angle = 0, rp_number = []\<rparr>"

definition panel_step :: Step where
  "panel_step =
     \<lparr>step_name = Some ''P'', step_type = None, step_x = 10, step_y = 0, step_width = 0,
      step_height = 0, edges = [],
      repeats = [panel_repeat], layers = []\<rparr>"

definition panel_drawing :: Drawing where
  "panel_drawing =
     \<lparr>dr_job = ''p.xml'', dr_width = 0, dr_height = 0, dr_start_step = Some ''P'',
      dr_steps = [(Some ''P'', panel_step), (Some ''H'', half_arc_step)]\<rparr>"

section \<open>\<open>int()\<close> on a run of digits\<close>

text \<open>
  Where the parsers call \<open>int\<close> on a string already known to be a non-empty run of
  digits, the model writes \<open>digits_value\<close>; the two agree.
\<close>

lemma digit_not_blank: "is_digit c \<Longrightarrow> \<not> is_blank c"
  by (auto simp: is_digit_def is_blank_def)

lemma digitpart_ok_digits: "s \<noteq> [] \<Longrightarrow> list_all is_digit s \<Longrightarrow> digitpart_ok s"
proof (induction s rule: digitpart_ok.induct)
  case 1
  then show ?case by simp
next
  case (2 c)
  then show ?case by simp
next
  case (3 c d r)
  then have "d \<noteq> CHR ''_''" by (auto simp: is_digit_def)
  with 3 show ?case by simp
qed

lemma dropWhile_none: "(\<And>c. c \<in> set s \<Longrightarrow> \<not> P c) \<Longrightarrow> dropWhile P s = s"
  by (cases s) auto

lemma strip_blanks_digits: "list_all is_digit s \<Longrightarrow> strip_blanks s = s"
proof -
  assume "list_all is_digit s"
  then have ns: "\<not> is_blank c" if "c \<in> set s" for c
    using that by (auto simp: list_all_iff digit_not_blank)
  have "dropWhile is_blank (rev s) = rev s" by (rule dropWhile_none) (simp add: ns)
  moreover have "dropWhile is_blank s = s" by (rule dropWhile_none) (simp add: ns)
  ultimately show ?thesis by (simp add: strip_blanks_def)
qed

lemma py_int_digits:
  assumes "s \<noteq> []" and "list_all is_digit s"
  shows "py_int s = Some (int (digits_value s))"
proof -
  obtain c r where s: "s = c # r" using assms(1) by (cases s) auto
  have "is_digit c" using assms(2) s by simp
  then have c: "c \<noteq> CHR ''-''" "c \<noteq> CHR ''+''" by (auto simp: is_digit_def)
  have "py_signed s = Some (int (digits_value s))"
    using digitpart_ok_digits[OF assms] c by (simp add: py_signed_def py_nat_def s)
  then show ?thesis by (simp only: py_int_def strip_blanks_digits[OF assms(2)])
qed

section \<open>Properties of the step transform and the geometry kernel\<close>

lemma apply_ops_position:
  "fst (apply_ops p ops (x, y, l))
     = fst (foldl (\<lambda>s opc. spec_op col opc s) (x, y, l') ops)
   \<and> fst (snd (apply_ops p ops (x, y, l)))
     = fst (snd (foldl (\<lambda>s opc. spec_op col opc s) (x, y, l') ops))"
  by (induction ops arbitrary: x y l l') (simp_all add: spec_op_def)

text \<open>
  On the position the loop of the source and the left-to-right fold agree for every chain;
  they can differ on the layer only.
\<close>

lemma apply_transformation_position:
  "fst (apply_transformation st p i) = fst (spec_apply_transformation st p i)
   \<and> fst (snd (apply_transformation st p i)) = fst (snd (spec_apply_transformation st p i))"
  using apply_ops_position[of p "operations st" "pt_x p" "pt_y p" "layer p" "count_of_layer p"
      "layer p"]
  by (auto simp: apply_transformation_def spec_apply_transformation_def split: prod.splits)

text \<open>
  C6 fails on the code. The claim folds the layer along the chain: every mirror replaces
  the running layer \<open>l\<close> by \<open>(1 - l) + count_of_layer\<close>, as the loop does for \<open>x\<close> and \<open>y\<close>.
  The source initialises the running \<open>layer\<close> and returns it, but both mirror branches
  compute the new value from \<open>point.layer\<close>. For the point (3, 5) on layer 1 of 2 and a
  step without offset: the chain \<open>XX\<close> returns the point to (3, 5), where the fold gives
  layer 1 again and the code returns layer 2; the chains \<open>XY\<close> and \<open>DD\<close> both move the point to
  (-3, -5), where the fold gives layer 1 for both and the code returns layer 2 for \<open>XY\<close>
  and layer 1 for \<open>DD\<close>.
\<close>

theorem apply_transformation_layer_not_folded:
  "apply_transformation (chain_step ''XX'') sample_point 0 = (3, 5, 2)
   \<and> spec_apply_transformation (chain_step ''XX'') sample_point 0 = (3, 5, 1)
   \<and> apply_transformation (chain_step ''XY'') sample_point 0 = (- 3, - 5, 2)
   \<and> spec_apply_transformation (chain_step ''XY'') sample_point 0 = (- 3, - 5, 1)
   \<and> apply_transformation (chain_step ''DD'') sample_point 0 = (- 3, - 5, 1)
   \<and> spec_apply_transformation (chain_step ''DD'') sample_point 0 = (- 3, - 5, 1)"
  by (simp add: apply_transformation_def spec_apply_transformation_def spec_op_def
      chain_step_def sample_point_def Point_fields_def)

text \<open>
  C8. \<open>rotate_translate\<close> computes \<open>(x cos a - y sin a + ox, y cos a + x sin a + oy)\<close>, and
  with angle 0 and offset \<open>(0, 0)\<close> it returns its input point.
\<close>

theorem rotate_translate_convention:
  "rotate_translate x y a ox oy = (x * cos a - y * sin a + ox, y * cos a + x * sin a + oy)
   \<and> rotate_translate x y 0 0 0 = (x, y)"
  by (simp add: rotate_translate_def)

section \<open>Properties of the LES parser\<close>

subsection \<open>What survives the clean-up of a point line\<close>

lemma set_remove_char: "set (remove_char c s) = set s - {c}"
  by (auto simp: remove_char_def)

lemma remove_pair_mem:
  "x \<noteq> a \<Longrightarrow> x \<noteq> b \<Longrightarrow> x \<in> set (remove_pair a b s) \<longleftrightarrow> x \<in> set s"
  by (induction a b s rule: remove_pair.induct) auto

lemma clean_content_mem:
  "x \<notin> set ''[]*/~&MS ,'' \<Longrightarrow> x \<in> set (clean_content s) \<longleftrightarrow> x \<in> set s"
  by (simp add: clean_content_def set_remove_char remove_pair_mem)

lemma drop_opt_subset: "x \<in> set (drop_opt c r) \<Longrightarrow> x \<in> set r"
  by (auto simp: drop_opt_def split: list.splits if_splits)

lemma signed_digits_subset: "signed_digits r = Some t \<Longrightarrow> x \<in> set t \<Longrightarrow> x \<in> set r"
  by (auto simp: signed_digits_def Let_def split: if_splits dest!: set_dropWhileD drop_opt_subset)

lemma xy_digits_XY: "xy_digits r = Some t \<Longrightarrow> CHR ''X'' \<in> set r \<and> CHR ''Y'' \<in> set r"
  by (auto simp: xy_digits_def split: list.splits if_splits option.splits
           dest: signed_digits_subset)

lemma point_pattern_XY: "point_pattern s \<Longrightarrow> CHR ''X'' \<in> set s \<and> CHR ''Y'' \<in> set s"
  by (auto simp: point_pattern_def split: list.splits option.splits
           dest!: xy_digits_XY set_dropWhileD)

subsection \<open>The enable flag on both construction paths\<close>

lemma init_a_section_keeps:
  "pt_style (init_a_section p cont aps) = pt_style p"
  "count_of_layer (init_a_section p cont aps) = count_of_layer p"
  "layer (init_a_section p cont aps) = layer p"
  by (simp_all add: init_a_section_def Let_def split: option.splits)

lemma init_v_section_keeps:
  "pt_style (init_v_section p cont) = pt_style p"
  "count_of_layer (init_v_section p cont) = count_of_layer p"
  by (simp_all add: init_v_section_def Let_def)

lemma init_regular_point_enable:
  assumes "CHR ''X'' \<in> set (clean_content c)" and "CHR ''Y'' \<in> set (clean_content c)"
  shows "enable_rule (init_regular_point p c col aps nr net)"
  using assms
  by (simp add: enable_rule_def init_regular_point_def Let_def init_a_section_keeps
        init_v_section_keeps)

lemma init_tooling_hole_enable:
  "style \<noteq> NORMAL \<Longrightarrow> enable_rule (init_tooling_hole p c aps style)"
  by (simp add: enable_rule_def init_tooling_hole_def Let_def split: option.splits)

lemma enable_rule_updates [simp]:
  "enable_rule (p\<lparr>pt_x := a\<rparr>) = enable_rule p"
  "enable_rule (p\<lparr>pt_y := b\<rparr>) = enable_rule p"
  "enable_rule (p\<lparr>pt_image := k\<rparr>) = enable_rule p"
  "enable_rule (p\<lparr>panel_image_name := nm\<rparr>) = enable_rule p"
  by (simp_all add: enable_rule_def)

lemma init_tooling_hole_style:
  "pt_style (init_tooling_hole p c aps style) = style"
  by (simp add: init_tooling_hole_def Let_def split: option.splits)

lemma init_regular_point_style:
  "pt_style (init_regular_point p c col aps nr net) = NORMAL"
  by (simp add: init_regular_point_def Let_def init_a_section_keeps init_v_section_keeps)

lemma handle_tooling_effect:
  assumes "line \<noteq> []"
  shows "\<exists>p. handle_tooling i line (L, ios, seg) = (L\<lparr>les_points := les_points L @ [p]\<rparr>, ios, seg)
             \<and> pt_style p \<noteq> NORMAL \<and> enable_rule p"
proof -
  define style where "style = (case ios of None \<Rightarrow> GLOBAL | Some k \<Rightarrow> if i < k then GLOBAL else LOCAL)"
  have st: "style = GLOBAL \<or> style = LOCAL"
    by (simp add: style_def split: option.splits)
  define q where "q = init_tooling_hole (Point_fields line 1 None (Some style)) line (les_apertures L) style"
  have pi: "Point_init line 1 (les_apertures L) None Net_default (Some style) = q"
    using assms st by (auto simp: Point_init_def q_def)
  have q: "pt_style q \<noteq> NORMAL" "enable_rule q"
    using st by (auto simp: q_def init_tooling_hole_style init_tooling_hole_enable)
  have "handle_tooling i line (L, ios, seg)
        = (L\<lparr>les_points := les_points L @ [q\<lparr>pt_x := pt_x q * les_scale L, pt_y := pt_y q * les_scale L\<rparr>]\<rparr>, ios, seg)"
    using pi by (simp add: handle_tooling_def style_def Let_def)
  with q show ?thesis by auto
qed

lemma point_pattern_nonempty: "point_pattern s \<Longrightarrow> s \<noteq> []"
  by (auto simp: point_pattern_def)

lemma Point_init_regular_enable:
  assumes "point_pattern s"
  shows "pt_style (Point_init s col aps nr net None) = NORMAL"
    and "enable_rule (Point_init s col aps nr net None)"
proof -
  have xy: "CHR ''X'' \<in> set (clean_content s)" "CHR ''Y'' \<in> set (clean_content s)"
    using point_pattern_XY[OF assms] by (simp_all add: clean_content_mem)
  have ne: "s \<noteq> []" using assms by (rule point_pattern_nonempty)
  show "pt_style (Point_init s col aps nr net None) = NORMAL"
    using ne by (simp add: Point_init_def init_regular_point_style)
  show "enable_rule (Point_init s col aps nr net None)"
    using ne xy by (simp add: Point_init_def init_regular_point_enable)
qed

lemma handle_point_effect:
  assumes "point_pattern stripped"
  shows "\<exists>p L'. handle_point stripped (L, ios, seg) = (L', ios, seg)
             \<and> les_points L' = les_points L @ [p] \<and> pt_style p = NORMAL \<and> enable_rule p"
  using Point_init_regular_enable[OF assms]
  by (simp add: handle_point_def Let_def)

lemma handle_outline_frame:
  "handle_outline line (L, ios, seg) = Inr (L', ios', seg') \<Longrightarrow>
     les_points L' = les_points L \<and> les_images L' = les_images L"
  by (auto simp: handle_outline_def Let_def split: list.splits if_splits)

lemma handle_aperture_frame:
  "handle_aperture line (L, ios, seg) = Inr (L', ios', seg') \<Longrightarrow>
     les_points L' = les_points L \<and> les_images L' = les_images L"
  by (auto simp: handle_aperture_def bind_err_def split: sum.splits)

lemma handle_step_frame:
  "handle_step i line (L, ios, seg) = Inr (L', ios', seg') \<Longrightarrow>
     les_points L' = les_points L \<and> les_images L' = les_images L"
  by (auto simp: handle_step_def bind_err_def split: sum.splits)

lemma handle_unit_frame:
  "les_points (handle_unit line L) = les_points L \<and> les_images (handle_unit line L) = les_images L"
  by (simp add: handle_unit_def Let_def)

lemma handle_net_points:
  "handle_net line (L, ios, seg) = (L', ios', seg') \<Longrightarrow> les_points L' = les_points L"
  by (auto simp: handle_net_def Let_def)

lemma classify_facts:
  "classify line = ToolingHole \<Longrightarrow> line \<noteq> [] \<and> tooling_pattern line"
  "classify line = RegularPoint st \<Longrightarrow> point_pattern st"
  by (auto simp: classify_def Let_def split: if_splits option.splits)

lemma process_line_enable:
  assumes "process_line i raw (L, ios, seg) = Inr (L', ios', seg')"
    and "list_all enable_rule (les_points L)"
  shows "list_all enable_rule (les_points L')"
proof (cases "classify (strip raw)")
  case ToolingHole
  from handle_tooling_effect[of "strip raw" i L ios seg] classify_facts(1)[OF ToolingHole]
  obtain p where
    "handle_tooling i (strip raw) (L, ios, seg) = (L\<lparr>les_points := les_points L @ [p]\<rparr>, ios, seg)"
    "enable_rule p" by blast
  with assms ToolingHole show ?thesis by (auto simp: process_line_def)
next
  case (RegularPoint st)
  from handle_point_effect[OF classify_facts(2)[OF RegularPoint], of L ios seg] obtain p L1 where
    "handle_point st (L, ios, seg) = (L1, ios, seg)"
    "les_points L1 = les_points L @ [p]" "enable_rule p" by blast
  with assms RegularPoint show ?thesis by (auto simp: process_line_def)
qed (use assms in \<open>auto simp: process_line_def Let_def handle_unit_frame
      dest: handle_outline_frame handle_aperture_frame handle_step_frame handle_net_points
      split: if_splits\<close>)

lemma process_lines_enable:
  "process_lines i raws s = Inr s' \<Longrightarrow> list_all enable_rule (les_points (fst s)) \<Longrightarrow>
     list_all enable_rule (les_points (fst s'))"
proof (induction raws arbitrary: i s)
  case Nil
  then show ?case by simp
next
  case (Cons raw raws)
  from Cons.prems(1) obtain s1 where
    s1: "process_line i raw s = Inr s1" and rest: "process_lines (Suc i) raws s1 = Inr s'"
    by (auto simp: bind_err_def split: sum.splits)
  obtain L ios seg where s: "s = (L, ios, seg)" by (cases s)
  obtain L1 ios1 seg1 where s1': "s1 = (L1, ios1, seg1)" by (cases s1)
  have "list_all enable_rule (les_points L1)"
    using process_line_enable[of i raw L ios seg L1 ios1 seg1] s1 Cons.prems(2) s s1' by simp
  with Cons.IH[OF rest] s1' show ?case by simp
qed

lemma name_points_enable:
  "name_points pts usage names k = Inr out \<Longrightarrow> list_all enable_rule pts \<Longrightarrow>
     list_all enable_rule out"
proof (induction pts arbitrary: usage names k out)
  case Nil
  then show ?case by simp
next
  case (Cons pt pts)
  then show ?case
    by (auto simp: Let_def bind_err_def split: list.splits sum.splits if_splits)
qed


text \<open>
  C5, as the code has it. Every point of a loaded document that came from the regular
  path (style \<open>NORMAL\<close>) has \<open>is_enable\<close> exactly when its layer is 1 or its
  \<open>count_of_layer\<close>; every tooling-hole point (style \<open>GLOBAL\<close> or \<open>LOCAL\<close>) has
  \<open>is_enable\<close> false and layer 1.
\<close>

theorem load_file_is_enable:
  assumes "load_file lines Les_init = Inr L" and "p \<in> set (les_points L)"
  shows "if pt_style p = NORMAL then is_enable p = (layer p = 1 \<or> layer p = count_of_layer p)
         else \<not> is_enable p \<and> layer p = 1"
proof -
  from assms(1) obtain L1 ios seg where
    run: "process_lines 0 lines (Les_init\<lparr>les_content := lines\<rparr>, None, []) = Inr (L1, ios, seg)"
    and fin: "(if seg \<noteq> [] then
            (let L2 = L1\<lparr>les_outline_points := les_outline_points L1 @ [seg]\<rparr>
             in bind_err (assign_panel_image_names (les_steps L2) (les_points L2))
                  (\<lambda>pts. Inr (L2\<lparr>les_points := pts\<rparr>)))
          else Inr L1) = Inr L"
    by (auto simp: load_file_def bind_err_def split: sum.splits)
  have "list_all enable_rule (les_points L1)"
    using process_lines_enable[OF run] by (simp add: Les_init_def)
  with fin have "list_all enable_rule (les_points L)"
    by (auto simp: Let_def bind_err_def assign_panel_image_names_def
        split: if_splits sum.splits dest: name_points_enable)
  with assms(2) have "enable_rule p" by (simp add: list_all_iff)
  then show ?thesis by (simp add: enable_rule_def)
qed


theorem load_file_is_enable_witness:
  "case load_file [''L2'', ''F,X1Y2'', ''I1X0Y0AS01V2''] Les_init of
     Inl e \<Rightarrow> False
   | Inr L \<Rightarrow> les_points L \<noteq> [] \<and> pt_style (last (les_points L)) = NORMAL
       \<and> is_enable (last (les_points L))
          = (layer (last (les_points L)) = 1
              \<or> layer (last (les_points L)) = count_of_layer (last (les_points L)))"
proof -
  have ev: "case load_file [''L2'', ''F,X1Y2'', ''I1X0Y0AS01V2''] Les_init of
              Inl e \<Rightarrow> False
            | Inr L \<Rightarrow> les_points L \<noteq> [] \<and> pt_style (last (les_points L)) = NORMAL"
    by code_simp
  then obtain L where L: "load_file [''L2'', ''F,X1Y2'', ''I1X0Y0AS01V2''] Les_init = Inr L"
    and ne: "les_points L \<noteq> []" and st: "pt_style (last (les_points L)) = NORMAL"
    by (auto split: sum.splits)
  from load_file_is_enable[OF L, of "last (les_points L)"] ne st
  show ?thesis using L by simp
qed


text \<open>
  C5 as stated fails on the tooling path: the point of the line \<open>F,X1Y2\<close> is on layer 1,
  which is also its \<open>count_of_layer\<close>, and is not enabled.
\<close>

theorem tooling_hole_not_enabled:
  "map_sum id (\<lambda>L. map (\<lambda>p. (pt_style p, layer p, count_of_layer p, is_enable p)) (les_points L))
     (load_file [''F,X1Y2''] Les_init) = Inr [(GLOBAL, 1, 1, False)]"
  by code_simp

text \<open>
  C3. The line \<open>O5:abc:2.0\<close> matches the aperture pattern; \<open>float('abc')\<close> is not
  guarded in the rectangular branch, so the \<open>ValueError\<close> leaves \<open>Aperture.__init__\<close>
  and \<open>load_file\<close>.
\<close>

theorem aperture_bad_width_raises:
  "aperture_pattern ''O5:abc:2.0''
   \<and> Aperture_init ''O5:abc:2.0'' = Inl ValueError
   \<and> load_file [''O5:abc:2.0''] Les_init = Inl ValueError"
  by code_simp

text \<open>
  C1. The naming pass runs only when the file ends inside an outline segment. For the
  file of the two lines \<open>F,X1Y2\<close> and \<open>I1X0Y0AS01\<close> no point gets a
  \<open>panel_image_name\<close> and the tooling point keeps image 0; with the open outline vertex
  \<open>K,X0Y0,\<close> as a third line both are named.
\<close>

theorem naming_pass_skipped_without_open_outline:
  "map_sum id (\<lambda>L. map (\<lambda>p. (pt_image p, panel_image_name p)) (les_points L))
     (load_file [''F,X1Y2'', ''I1X0Y0AS01''] Les_init) = Inr [(0, None), (1, None)]
   \<and> map_sum id (\<lambda>L. map (\<lambda>p. (pt_image p, panel_image_name p)) (les_points L))
     (load_file [''F,X1Y2'', ''I1X0Y0AS01'', ''K,X0Y0,''] Les_init)
       = Inr [(1, Some ''Panel 1 Image 1''), (1, Some ''Panel 1 Image 1'')]"
  by code_simp

subsection \<open>Which lines touch the per-image boxes\<close>













section \<open>Properties of the XML parser\<close>

lemma map_of_dict_set: "map_of (dict_set k v d) = (map_of d)(k \<mapsto> v)"
  by (induction d) (auto simp: fun_eq_iff)

lemma hd_dict_set: "d \<noteq> [] \<Longrightarrow> fst (hd (dict_set k v d)) = fst (hd d)"
  by (cases d) auto

lemma dict_set_nonempty: "dict_set k v d \<noteq> []"
  by (cases d) auto

lemma add_steps_result:
  "add_steps els d = Inr d' \<Longrightarrow>
     \<exists>sts. map Step_init els = map Inr sts
         \<and> (\<forall>n. map_of d' n = (case last_named n sts of None \<Rightarrow> map_of d n | Some st \<Rightarrow> Some st))
         \<and> (d \<noteq> [] \<longrightarrow> d' \<noteq> [] \<and> fst (hd d') = fst (hd d))
         \<and> (d = [] \<and> sts \<noteq> [] \<longrightarrow> d' \<noteq> [] \<and> fst (hd d') = step_name (hd sts))
         \<and> (d = [] \<and> sts = [] \<longrightarrow> d' = [])"
proof (induction els arbitrary: d d')
  case Nil
  then show ?case by (auto simp: last_named_def)
next
  case (Cons el els)
  from Cons.prems obtain st where st: "Step_init el = Inr st"
    and rest: "add_steps els (dict_set (step_name st) st d) = Inr d'"
    by (auto simp: bind_err_def split: sum.splits)
  from Cons.IH[OF rest] obtain sts where sts: "map Step_init els = map Inr sts"
    and look: "\<forall>n. map_of d' n = (case last_named n sts of
                 None \<Rightarrow> map_of (dict_set (step_name st) st d) n | Some s \<Rightarrow> Some s)"
    and keep: "d' \<noteq> [] \<and> fst (hd d') = fst (hd (dict_set (step_name st) st d))"
    using dict_set_nonempty[of "step_name st" st d] by blast
  have 1: "map Step_init (el # els) = map Inr (st # sts)" using st sts by simp
  have 2: "map_of d' n = (case last_named n (st # sts) of None \<Rightarrow> map_of d n | Some s \<Rightarrow> Some s)" for n
    using look[rule_format, of n]
    by (auto simp: last_named_def map_of_dict_set split: list.splits if_splits)
  have 3: "d \<noteq> [] \<longrightarrow> d' \<noteq> [] \<and> fst (hd d') = fst (hd d)"
    using keep by (simp add: hd_dict_set)
  have 4: "d = [] \<longrightarrow> d' \<noteq> [] \<and> fst (hd d') = step_name (hd (st # sts))"
    using keep by auto
  from 1 2 3 4 show ?case by (intro exI[of _ "st # sts"]) auto
qed

lemma add_steps_total:
  "map Step_init els = map Inr sts \<Longrightarrow> \<exists>d'. add_steps els d = Inr d'"
proof (induction els arbitrary: d sts)
  case Nil
  then show ?case by simp
next
  case (Cons el els)
  then obtain st sts' where "sts = st # sts'" "Step_init el = Inr st" "map Step_init els = map Inr sts'"
    by (cases sts) auto
  with Cons.IH[of sts'] show ?case by (simp add: bind_err_def)
qed


text \<open>
  C9. When \<open>parse_xml\<close> returns a drawing, every \<open>step\<close> element was parsed, the
  \<open>steps\<close> mapping gives for each name the last step element of that name, and without
  a \<open>start\<close> element \<open>start_step\<close> is the name of the first step element of the document.
  Duplicate names are never an error: \<open>parse_xml\<close> returns a drawing whenever the root's
  \<open>width\<close> and \<open>height\<close> and every step element parse.
\<close>

theorem parse_xml_steps:
  "(parse_xml root_el base_name = Inr d \<longrightarrow>
      (\<exists>sts. map Step_init (findall ''step'' root_el) = map Inr sts
         \<and> (\<forall>n. map_of (dr_steps d) n = last_named n sts)
         \<and> (find_child ''start'' root_el = None \<and> sts \<noteq> [] \<longrightarrow>
              dr_start_step d = step_name (hd sts))))
   \<and> (float_attr root_el ''width'' = Inr w \<and> float_attr root_el ''height'' = Inr h
        \<and> map Step_init (findall ''step'' root_el) = map Inr sts \<longrightarrow>
        (\<exists>d'. parse_xml root_el base_name = Inr d'))"
proof (intro conjI impI)
  assume ok: "parse_xml root_el base_name = Inr d"
  then obtain steps where add: "add_steps (findall ''step'' root_el) [] = Inr steps"
    and ds: "dr_steps d = steps"
    and st: "find_child ''start'' root_el = None \<Longrightarrow> steps \<noteq> [] \<Longrightarrow> dr_start_step d = fst (hd steps)"
    by (auto simp: parse_xml_def Let_def bind_err_def split: sum.splits)
  from add_steps_result[OF add] obtain sts where
    sts: "map Step_init (findall ''step'' root_el) = map Inr sts"
    and look0: "\<forall>n. map_of steps n = (case last_named n sts of None \<Rightarrow> map_of [] n | Some st \<Rightarrow> Some st)"
    and first0: "[] = ([] :: (string option \<times> Step) list) \<and> sts \<noteq> [] \<longrightarrow>
                   steps \<noteq> [] \<and> fst (hd steps) = step_name (hd sts)"
    by blast
  have look: "map_of steps n = last_named n sts" for n
    using look0[rule_format, of n] by (simp split: option.splits)
  have first: "sts \<noteq> [] \<longrightarrow> steps \<noteq> [] \<and> fst (hd steps) = step_name (hd sts)"
    using first0 by simp
  have "\<forall>n. map_of (dr_steps d) n = last_named n sts"
    using look ds by simp
  moreover have "find_child ''start'' root_el = None \<and> sts \<noteq> [] \<longrightarrow>
              dr_start_step d = step_name (hd sts)"
    using first st by auto
  ultimately show "\<exists>sts. map Step_init (findall ''step'' root_el) = map Inr sts
         \<and> (\<forall>n. map_of (dr_steps d) n = last_named n sts)
         \<and> (find_child ''start'' root_el = None \<and> sts \<noteq> [] \<longrightarrow>
              dr_start_step d = step_name (hd sts))"
    using sts by blast
next
  assume a: "float_attr root_el ''width'' = Inr w \<and> float_attr root_el ''height'' = Inr h
        \<and> map Step_init (findall ''step'' root_el) = map Inr sts"
  then obtain d' where "add_steps (findall ''step'' root_el) [] = Inr d'"
    using add_steps_total[of "findall ''step'' root_el" sts "[]"] by blast
  with a show "\<exists>d'. parse_xml root_el base_name = Inr d'"
    by (simp add: parse_xml_def Let_def bind_err_def)
qed

theorem parse_xml_steps_witness:
  "case parse_xml duplicate_names_doc ''f.xml'' of
     Inl e \<Rightarrow> False
   | Inr d \<Rightarrow> dr_start_step d = Some ''A''
             \<and> map_option step_x (map_of (dr_steps d) (Some ''A'')) = Some 2
             \<and> map_option step_x (map_of (dr_steps d) (Some ''B'')) = Some 0
             \<and> map_of (dr_steps d) None = None"
proof -
  let ?sA1 = "\<lparr>step_name = Some ''A'', step_type = None, step_x = 1, step_y = 0,
               step_width = 0, step_height = 0, edges = [], repeats = [], layers = []\<rparr>"
  let ?sB = "\<lparr>step_name = Some ''B'', step_type = None, step_x = 0, step_y = 0,
               step_width = 0, step_height = 0, edges = [], repeats = [], layers = []\<rparr>"
  let ?sA2 = "\<lparr>step_name = Some ''A'', step_type = None, step_x = 2, step_y = 0,
               step_width = 0, step_height = 0, edges = [], repeats = [], layers = []\<rparr>"
  have els: "map Step_init (findall ''step'' duplicate_names_doc) = map Inr [?sA1, ?sB, ?sA2]"
    by code_simp
  have nostart: "find_child ''start'' duplicate_names_doc = None"
    by code_simp
  have fl: "float_attr duplicate_names_doc ''width'' = Inr 0
          \<and> float_attr duplicate_names_doc ''height'' = Inr 0
          \<and> map Step_init (findall ''step'' duplicate_names_doc) = map Inr [?sA1, ?sB, ?sA2]"
    using els by (simp add: float_attr_def get_attr_def duplicate_names_doc_def)
  note ps = parse_xml_steps[of duplicate_names_doc "''f.xml''" _ 0 0 "[?sA1, ?sB, ?sA2]"]
  from ps fl obtain d where d: "parse_xml duplicate_names_doc ''f.xml'' = Inr d"
    by blast
  from ps[of d] d obtain sts where
    sts: "map Step_init (findall ''step'' duplicate_names_doc) = map Inr sts"
    and look: "\<forall>n. map_of (dr_steps d) n = last_named n sts"
    and start: "find_child ''start'' duplicate_names_doc = None \<and> sts \<noteq> [] \<longrightarrow>
                  dr_start_step d = step_name (hd sts)"
    by blast
  from sts els have "map (Inr :: Step \<Rightarrow> py_error + Step) sts = map Inr [?sA1, ?sB, ?sA2]"
    by (simp only:)
  then have eq: "sts = [?sA1, ?sB, ?sA2]"
    by (rule map_injective) (rule inj_Inr)
  show ?thesis
    using d look start nostart unfolding eq
    by (simp add: last_named_def)
qed

section \<open>Properties of the XML walks\<close>

subsection \<open>Recursion on a cyclic repeat graph\<close>

lemma self_repeat_lookup:
  "map_of (dr_steps self_repeat_drawing) (Some ''A'') = Some self_repeat_step"
  by (simp add: self_repeat_drawing_def)

lemma Canvas_init_flags:
  "show_xml_repeats Canvas_init" "show_xml_edges Canvas_init" "show_xml_barcodes Canvas_init"
  by (simp_all add: Canvas_init_def)

lemma draw_self_repeat:
  "draw_xml_step_recursive frames Canvas_init self_repeat_drawing self_repeat_step
     base ox oy c 0 = Inl RecursionError"
proof (induction frames arbitrary: base ox oy c)
  case 0
  show ?case by simp
next
  case (Suc frames)
  have rp: "repeats self_repeat_step =
            [\<lparr>rp_id = None, rp_pos_num = None, rp_step = Some ''A'', rp_x = 0, rp_y = 0,
              rp_angle = 0, rp_number = []\<rparr>]"
    by (simp add: self_repeat_step_def)
  show ?case
    by (simp add: Let_def rp self_repeat_lookup Suc.IH bind_err_def Canvas_init_flags
          split: prod.splits)
qed

lemma fit_all_self_repeat:
  "fit_all_compute_step_bounds frames Canvas_init self_repeat_drawing self_repeat_step
     base ox oy depth b = Inl RecursionError"
proof (induction frames arbitrary: base ox oy depth b)
  case 0
  show ?case by simp
next
  case (Suc frames)
  have rp: "repeats self_repeat_step =
            [\<lparr>rp_id = None, rp_pos_num = None, rp_step = Some ''A'', rp_x = 0, rp_y = 0,
              rp_angle = 0, rp_number = []\<rparr>]"
    by (simp add: self_repeat_step_def)
  show ?case
    by (simp add: Let_def rp self_repeat_lookup Suc.IH bind_err_def Canvas_init_flags
          split: prod.splits)
qed

lemma fit_step_self_repeat:
  "compute_step_bounds frames Canvas_init self_repeat_drawing True self_repeat_step
     base ox oy depth b = Inl RecursionError"
proof (induction frames arbitrary: base ox oy depth b)
  case 0
  show ?case by simp
next
  case (Suc frames)
  have rp: "repeats self_repeat_step =
            [\<lparr>rp_id = None, rp_pos_num = None, rp_step = Some ''A'', rp_x = 0, rp_y = 0,
              rp_angle = 0, rp_number = []\<rparr>]"
    by (simp add: self_repeat_step_def)
  show ?case
    by (simp add: Let_def rp self_repeat_lookup Suc.IH bind_err_def Canvas_init_flags
          split: prod.splits)
qed

lemma parse_self_repeat: "parse_xml self_repeat_doc ''c.xml'' = Inr self_repeat_drawing"
  by code_simp


text \<open>
  C2. On the drawing whose step \<open>A\<close> repeats itself, with repeats shown, the draw walk and
  both bounds walks end in \<open>RecursionError\<close> whatever the number of stack frames: \<open>depth\<close>
  is 0 in every call of the draw walk, and the bounds walks never test it. The guard of the
  draw walk does return at once when it is handed a depth above 50.
\<close>

theorem depth_cap_never_reached:
  "parse_xml self_repeat_doc ''c.xml'' = Inr self_repeat_drawing
   \<and> (\<forall>frames. draw_xml_walk frames Canvas_init self_repeat_drawing self_repeat_step
                  = Inl RecursionError)
   \<and> (\<forall>frames. fit_all_compute_step_bounds frames Canvas_init self_repeat_drawing
                  self_repeat_step 0 (- step_x self_repeat_step) (- step_y self_repeat_step)
                  0 None = Inl RecursionError)
   \<and> (\<forall>frames. fit_step_bounds frames Canvas_init self_repeat_drawing True self_repeat_step
                  = Inl RecursionError)
   \<and> (\<forall>frames c. draw_xml_step_recursive (Suc frames) Canvas_init self_repeat_drawing
                  self_repeat_step 0 0 0 c 51 = Inr [])"
  by (simp add: parse_self_repeat draw_xml_walk_def fit_step_bounds_def draw_self_repeat
        fit_all_self_repeat fit_step_self_repeat)

subsection \<open>Angles, sweeps and the box of an arc\<close>

lemma py_mod_range: "0 \<le> py_mod a 360 \<and> py_mod a 360 < 360"
proof -
  have "of_int \<lfloor>a / 360\<rfloor> * 360 \<le> a" "a < (of_int \<lfloor>a / 360\<rfloor> + 1) * 360"
    using floor_divide_lower[of 360 a] floor_divide_upper[of 360 a] by simp_all
  then show ?thesis by (simp add: py_mod_def algebra_simps)
qed

lemma radians_le: "radians a \<le> radians b \<longleftrightarrow> a \<le> b"
  using pi_gt_zero by (simp add: radians_def divide_le_cancel mult_le_cancel_right)

lemma radians_values: "radians (- 180) = - pi" "radians 0 = 0" "radians (- 360) = - (2 * pi)"
  by (simp_all add: radians_def)

lemma py_mod_shift: "\<exists>k::int. py_mod a 360 = a - 360 * of_int k"
  by (auto simp: py_mod_def)

lemma py_mod_id: "0 \<le> a \<Longrightarrow> a < 360 \<Longrightarrow> py_mod a 360 = a"
proof -
  assume "0 \<le> a" "a < 360"
  then have "\<lfloor>a / 360\<rfloor> = 0" by (simp add: floor_eq_iff)
  then show ?thesis by (simp add: py_mod_def)
qed

lemma normalize_deg_id: "0 \<le> a \<Longrightarrow> a < 360 \<Longrightarrow> normalize_deg a = a"
  by (simp add: normalize_deg_def py_mod_id Let_def)

lemma cos_radians_shift: "cos (radians (x + 360 * of_int k)) = cos (radians x)"
proof -
  have "radians (x + 360 * of_int k) = radians x + (2 * pi) * of_int k"
    by (simp add: radians_def field_simps)
  then show ?thesis by (simp add: cos_add)
qed

lemma sin_radians_shift: "sin (radians (x + 360 * of_int k)) = sin (radians x)"
proof -
  have "radians (x + 360 * of_int k) = radians x + (2 * pi) * of_int k"
    by (simp add: radians_def field_simps)
  then show ?thesis by (simp add: sin_add)
qed

lemma cos_between:
  assumes "- 360 < lo" "lo \<le> psi" "psi \<le> hi" "hi < 0"
  shows "cos (radians psi) \<le> max (cos (radians lo)) (cos (radians hi))"
proof (cases "- 180 \<le> psi")
  case True
  have "cos (radians psi) \<le> cos (radians hi)"
  proof (rule cos_monotone_minus_pi_0')
    show "- pi \<le> radians psi" using True radians_le[of "- 180" psi] by (simp add: radians_values)
    show "radians psi \<le> radians hi" using assms by (simp add: radians_le)
    show "radians hi \<le> 0" using assms radians_le[of hi 0] by (simp add: radians_values)
  qed
  then show ?thesis by simp
next
  case False
  have lo: "- (2 * pi) \<le> radians lo"
    using assms radians_le[of "- 360" lo] by (simp add: radians_values)
  have ps: "radians psi \<le> - pi"
    using False radians_le[of psi "- 180"] by (simp add: radians_values)
  have "cos (radians psi + 2 * pi) \<le> cos (radians lo + 2 * pi)"
  proof (rule cos_monotone_0_pi_le)
    show "0 \<le> radians lo + 2 * pi" using lo by simp
    show "radians lo + 2 * pi \<le> radians psi + 2 * pi" using assms by (simp add: radians_le)
    show "radians psi + 2 * pi \<le> pi" using ps by simp
  qed
  then show ?thesis by simp
qed

text \<open>The shifted cosine along a sweep of start S and span D.\<close>

lemma shifted_cos_bound:
  assumes "0 \<le> t" "t \<le> D" "D < py_mod (c - S) 360"
  shows "cos (radians (S + t - c)) \<le> max (cos (radians (S - c))) (cos (radians (S + D - c)))"
proof -
  define u where "u = py_mod (c - S) 360"
  obtain k :: int where k: "u = c - S - 360 * of_int k"
    using py_mod_shift[of "c - S"] by (auto simp: u_def)
  have u: "u < 360" "D < u" using py_mod_range[of "c - S"] assms by (simp_all add: u_def)
  have eq: "S + x - c = (x - u) + 360 * of_int (- k)" for x
    by (simp add: k)
  have "cos (radians (t - u)) \<le> max (cos (radians (0 - u))) (cos (radians (D - u)))"
    using assms u by (intro cos_between) auto
  moreover have "cos (radians (S + t - c)) = cos (radians (t - u))"
    by (subst eq) (rule cos_radians_shift)
  moreover have "cos (radians (S + D - c)) = cos (radians (D - u))"
    by (subst eq) (rule cos_radians_shift)
  moreover have "cos (radians (S - c)) = cos (radians (0 - u))"
    using eq[of 0] cos_radians_shift[of "0 - u" "- k"] by simp
  ultimately show ?thesis by simp
qed

lemma trig_shift:
  "cos (radians (x - 180)) = - cos (radians x)"
  "cos (radians (x - 90)) = sin (radians x)"
  "cos (radians (x - 270)) = - sin (radians x)"
proof -
  have 1: "radians (x - 180) = radians x - pi" by (simp add: radians_def field_simps)
  have 2: "radians (x - 90) = radians x - pi / 2" by (simp add: radians_def field_simps)
  have 3: "radians (x - 270) = radians x - 3 / 2 * pi" by (simp add: radians_def field_simps)
  show "cos (radians (x - 180)) = - cos (radians x)" unfolding 1 by (simp add: cos_diff)
  show "cos (radians (x - 90)) = sin (radians x)" unfolding 2 by (simp add: cos_diff)
  show "cos (radians (x - 270)) = - sin (radians x)"
    unfolding 3 cos_diff by (simp only: cos_3over2_pi sin_3over2_pi)
qed

lemma cardinal_values:
  "cos (radians 0) = 1" "sin (radians 0) = 0"
  "cos (radians 180) = - 1" "sin (radians 90) = 1" "sin (radians 270) = - 1"
proof -
  have r0: "radians 0 = 0" and r180: "radians 180 = pi" and r90: "radians 90 = pi / 2"
    and r270: "radians 270 = 3 / 2 * pi"
    by (simp_all add: radians_def)
  show "cos (radians 0) = 1" "sin (radians 0) = 0" by (simp_all add: r0)
  show "cos (radians 180) = - 1" by (simp add: r180)
  show "sin (radians 90) = 1" by (simp only: r90 sin_pi_half)
  show "sin (radians 270) = - 1" by (simp only: r270 sin_3over2_pi)
qed

lemma sweep_point_in_box:
  fixes L :: "(real \<times> real) list"
  assumes r: "0 \<le> r" and t: "0 \<le> t" "t \<le> D"
    and L0: "circle_point cx cy r (radians S) \<in> set L"
    and L1: "circle_point cx cy r (radians (S + D)) \<in> set L"
    and card: "\<And>c. c \<in> {0, 90, 180, 270} \<Longrightarrow> py_mod (c - S) 360 \<le> D \<Longrightarrow>
                  circle_point cx cy r (radians c) \<in> set L"
  shows "box_contains (Some (Min (set (map fst L)), Min (set (map snd L)),
                             Max (set (map fst L)), Max (set (map snd L))))
           (circle_point cx cy r (radians (S + t)))"
proof -
  let ?P = "\<lambda>a. circle_point cx cy r (radians a)"
  have fin: "finite (set (map fst L))" "finite (set (map snd L))" by simp_all
  have lowx: "Min (set (map fst L)) \<le> fst p" and upx: "fst p \<le> Max (set (map fst L))"
    and lowy: "Min (set (map snd L)) \<le> snd p" and upy: "snd p \<le> Max (set (map snd L))"
    if "p \<in> set L" for p
    using that by (auto intro!: Min_le Max_ge)
  have xu: "fst (?P (S + t)) \<le> Max (set (map fst L))"
  proof (cases "py_mod (0 - S) 360 \<le> D")
    case True
    from card[OF _ True] have "?P 0 \<in> set L" by simp
    from upx[OF this] have "cx + r \<le> Max (set (map fst L))"
      by (simp add: circle_point_def cardinal_values)
    moreover have "r * cos (radians (S + t)) \<le> r * 1"
      using r by (intro mult_left_mono) auto
    ultimately show ?thesis by (simp add: circle_point_def)
  next
    case False
    then have "cos (radians (S + t - 0)) \<le> max (cos (radians (S - 0))) (cos (radians (S + D - 0)))"
      using t by (intro shifted_cos_bound) auto
    then have "cos (radians (S + t)) \<le> cos (radians S) \<or> cos (radians (S + t)) \<le> cos (radians (S + D))"
      by (auto simp: max_def split: if_splits)
    then have "fst (?P (S + t)) \<le> fst (?P S) \<or> fst (?P (S + t)) \<le> fst (?P (S + D))"
      using r by (auto simp: circle_point_def intro: mult_left_mono)
    with upx[OF L0] upx[OF L1] show ?thesis by auto
  qed
  have xl: "Min (set (map fst L)) \<le> fst (?P (S + t))"
  proof (cases "py_mod (180 - S) 360 \<le> D")
    case True
    from card[OF _ True] have "?P 180 \<in> set L" by simp
    from lowx[OF this] have "Min (set (map fst L)) \<le> cx - r"
      by (simp add: circle_point_def cardinal_values)
    moreover have "r * (- 1) \<le> r * cos (radians (S + t))"
      using r by (intro mult_left_mono) auto
    ultimately show ?thesis by (simp add: circle_point_def)
  next
    case False
    then have "cos (radians (S + t - 180)) \<le> max (cos (radians (S - 180))) (cos (radians (S + D - 180)))"
      using t by (intro shifted_cos_bound) auto
    then have "cos (radians S) \<le> cos (radians (S + t)) \<or> cos (radians (S + D)) \<le> cos (radians (S + t))"
      by (auto simp: trig_shift max_def split: if_splits)
    then have "fst (?P S) \<le> fst (?P (S + t)) \<or> fst (?P (S + D)) \<le> fst (?P (S + t))"
      using r by (auto simp: circle_point_def intro: mult_left_mono)
    with lowx[OF L0] lowx[OF L1] show ?thesis by auto
  qed
  have yu: "snd (?P (S + t)) \<le> Max (set (map snd L))"
  proof (cases "py_mod (270 - S) 360 \<le> D")
    case True
    from card[OF _ True] have "?P 270 \<in> set L" by simp
    from upy[OF this] have "cy + r \<le> Max (set (map snd L))"
      by (simp add: circle_point_def cardinal_values)
    moreover have "r * (- 1) \<le> r * sin (radians (S + t))"
      using r by (intro mult_left_mono) auto
    ultimately show ?thesis by (simp add: circle_point_def)
  next
    case False
    then have "cos (radians (S + t - 270)) \<le> max (cos (radians (S - 270))) (cos (radians (S + D - 270)))"
      using t by (intro shifted_cos_bound) auto
    then have "sin (radians S) \<le> sin (radians (S + t)) \<or> sin (radians (S + D)) \<le> sin (radians (S + t))"
      by (auto simp: trig_shift max_def split: if_splits)
    then have "snd (?P (S + t)) \<le> snd (?P S) \<or> snd (?P (S + t)) \<le> snd (?P (S + D))"
      using r by (auto simp: circle_point_def intro: mult_left_mono)
    with upy[OF L0] upy[OF L1] show ?thesis by auto
  qed
  have yl: "Min (set (map snd L)) \<le> snd (?P (S + t))"
  proof (cases "py_mod (90 - S) 360 \<le> D")
    case True
    from card[OF _ True] have "?P 90 \<in> set L" by simp
    from lowy[OF this] have "Min (set (map snd L)) \<le> cy - r"
      by (simp add: circle_point_def cardinal_values)
    moreover have "r * sin (radians (S + t)) \<le> r * 1"
      using r by (intro mult_left_mono) auto
    ultimately show ?thesis by (simp add: circle_point_def)
  next
    case False
    then have "cos (radians (S + t - 90)) \<le> max (cos (radians (S - 90))) (cos (radians (S + D - 90)))"
      using t by (intro shifted_cos_bound) auto
    then have "sin (radians (S + t)) \<le> sin (radians S) \<or> sin (radians (S + t)) \<le> sin (radians (S + D))"
      by (auto simp: trig_shift max_def split: if_splits)
    then have "snd (?P S) \<le> snd (?P (S + t)) \<or> snd (?P (S + D)) \<le> snd (?P (S + t))"
      using r by (auto simp: circle_point_def intro: mult_left_mono)
    with lowy[OF L0] lowy[OF L1] show ?thesis by auto
  qed
  from xu xl yu yl show ?thesis by (simp add: box_contains_def)
qed

lemma lower_dirs: "lower ''ccw'' = ''ccw''" "lower ''cw'' = ''cw''"
  by (simp_all add: lower_def lower_char_def)

lemma circle_point_shift:
  "circle_point cx cy r (radians (x + 360 * of_int k)) = circle_point cx cy r (radians x)"
  by (simp add: circle_point_def cos_radians_shift sin_radians_shift)

lemma radians_linear: "radians a + m * radians d = radians (a + m * d)"
  by (simp add: radians_def algebra_simps add_divide_distrib)

lemma polyline_point:
  assumes "p \<in> set (arc_polyline_world_points zoom cx cy r a0 a1 dm)"
  shows "\<exists>tau. 0 \<le> tau \<and> tau \<le> 1 \<and>
           p = circle_point cx cy r
                 (radians (a0 + tau * (if lower dm = ''ccw'' then py_mod (a1 - a0) 360
                                       else - py_mod (a0 - a1) 360)))"
proof -
  define delta where "delta = (if lower dm = ''ccw'' then py_mod (a1 - a0) 360
                               else - py_mod (a0 - a1) 360)"
  define n0 where "n0 = max 12 (min 512 (py_trunc (\<bar>radians delta\<bar> * max (r * zoom) 1 / 3)))"
  define n where "n = nat (if n0 < 2 then 2 else n0)"
  have n: "0 < n" by (simp add: n_def n0_def)
  have eq: "arc_polyline_world_points zoom cx cy r a0 a1 dm
              = map (\<lambda>i. circle_point cx cy r (radians a0 + real i * (radians delta / real n)))
                  [0 ..< n + 1]"
    by (simp only: arc_polyline_world_points_def Let_def delta_def n0_def n_def)
  from assms have "p \<in> (\<lambda>i. circle_point cx cy r (radians a0 + real i * (radians delta / real n)))
                        ` {0 ..< n + 1}"
    by (simp only: eq set_map set_upt)
  then obtain i where i: "i < n + 1"
    and p: "p = circle_point cx cy r (radians a0 + real i * (radians delta / real n))"
    by auto
  define tau where "tau = real i / real n"
  have "0 \<le> tau" "tau \<le> 1" using i n by (simp_all add: tau_def)
  moreover have "radians a0 + real i * (radians delta / real n) = radians (a0 + tau * delta)"
    using n by (simp add: tau_def radians_def field_simps)
  ultimately show ?thesis using p unfolding delta_def by auto
qed

lemma in_sweep_ccw:
  assumes "0 \<le> a0" "a0 < 360" "0 \<le> a1" "a1 < 360" "c \<in> {0, 90, 180, 270}"
    and "py_mod (c - a0) 360 \<le> py_mod (a1 - a0) 360"
  shows "angle_in_sweep c a0 a1 ''ccw''"
proof -
  have c: "normalize_deg c = c" using assms(5) by (auto simp: normalize_deg_id)
  show ?thesis
    using assms(6) by (simp add: angle_in_sweep_def Let_def lower_dirs c normalize_deg_id assms(1-4))
qed

lemma in_sweep_cw:
  assumes "0 \<le> a0" "a0 < 360" "0 \<le> a1" "a1 < 360" "c \<in> {0, 90, 180, 270}"
    and "py_mod (c - a1) 360 \<le> py_mod (a0 - a1) 360"
  shows "angle_in_sweep c a0 a1 ''cw''"
proof -
  have c: "normalize_deg c = c" using assms(5) by (auto simp: normalize_deg_id)
  show ?thesis
    using assms(6) by (simp add: angle_in_sweep_def Let_def lower_dirs c normalize_deg_id assms(1-4))
qed

lemma arc_bounds_pts:
  "arc_bounds cx cy r a0 a1 d =
     (Min (set (map fst (arc_pts cx cy r a0 a1 d))), Min (set (map snd (arc_pts cx cy r a0 a1 d))),
      Max (set (map fst (arc_pts cx cy r a0 a1 d))), Max (set (map snd (arc_pts cx cy r a0 a1 d))))"
  by (simp only: arc_bounds_def Let_def)

lemma arc_pts_cardinal:
  assumes "c \<in> {0, 90, 180, 270}" and "angle_in_sweep c a0 a1 d"
  shows "circle_point cx cy r (radians c) \<in> set (arc_pts cx cy r a0 a1 d)"
proof -
  have "c \<in> set [0, 90, 180, 270 :: real]" using assms(1) by simp
  with assms(2) have "c \<in> set (filter (\<lambda>ang. angle_in_sweep ang a0 a1 d) [0, 90, 180, 270])"
    by (simp only: set_filter mem_Collect_eq)
  then have "circle_point cx cy r (radians c)
      \<in> set (map (\<lambda>ang. circle_point cx cy r (radians ang))
                (filter (\<lambda>ang. angle_in_sweep ang a0 a1 d) [0, 90, 180, 270]))"
    by (simp only: set_map) (rule imageI)
  then show ?thesis by (simp only: arc_pts_def set_append Un_iff simp_thms)
qed

lemma arc_pts_ends:
  "circle_point cx cy r (radians a0) \<in> set (arc_pts cx cy r a0 a1 d)"
  "circle_point cx cy r (radians a1) \<in> set (arc_pts cx cy r a0 a1 d)"
  by (simp_all only: arc_pts_def set_append Un_iff list.set list.map insert_iff simp_thms)

lemma arc_polyline_in_arc_bounds:
  assumes r: "0 \<le> r" and a: "0 \<le> a0" "a0 < 360" "0 \<le> a1" "a1 < 360"
    and dm: "dm = ''ccw'' \<or> dm = ''cw''"
    and p: "p \<in> set (arc_polyline_world_points zoom cx cy r a0 a1 dm)"
  shows "box_contains (Some (arc_bounds cx cy r a0 a1 dm)) p"
proof -
  let ?P = "\<lambda>x. circle_point cx cy r (radians x)"
  let ?L = "arc_pts cx cy r a0 a1 dm"
  from polyline_point[OF p] obtain tau where tau: "0 \<le> tau" "tau \<le> 1"
    and pt: "p = ?P (a0 + tau * (if lower dm = ''ccw'' then py_mod (a1 - a0) 360
                                  else - py_mod (a0 - a1) 360))"
    by blast
  from dm show ?thesis
  proof
    assume ccw: "dm = ''ccw''"
    define D where "D = py_mod (a1 - a0) 360"
    obtain k :: int where k: "D = a1 - a0 - 360 * of_int k"
      using py_mod_shift[of "a1 - a0"] by (auto simp: D_def)
    have D: "0 \<le> D" using py_mod_range[of "a1 - a0"] by (simp add: D_def)
    have p': "p = ?P (a0 + tau * D)" using pt ccw by (simp add: lower_dirs D_def)
    have "a0 + D = a1 + 360 * of_int (- k)" by (simp add: k)
    then have end1: "?P (a0 + D) = ?P a1" by (simp only: circle_point_shift)
    have "box_contains (Some (Min (set (map fst ?L)), Min (set (map snd ?L)),
                             Max (set (map fst ?L)), Max (set (map snd ?L))))
           (?P (a0 + tau * D))"
    proof (rule sweep_point_in_box[OF r])
      show "0 \<le> tau * D" using tau D by simp
      show "tau * D \<le> D" using tau D by (simp add: mult_left_le_one_le)
      show "?P a0 \<in> set ?L" by (rule arc_pts_ends)
      show "?P (a0 + D) \<in> set ?L" unfolding end1 by (rule arc_pts_ends)
      show "?P c \<in> set ?L" if "c \<in> {0, 90, 180, 270}" "py_mod (c - a0) 360 \<le> D" for c
        using that a unfolding ccw D_def by (intro arc_pts_cardinal in_sweep_ccw) auto
    qed
    then show ?thesis by (simp add: arc_bounds_pts p')
  next
    assume cw: "dm = ''cw''"
    define D where "D = py_mod (a0 - a1) 360"
    obtain m :: int where m: "D = a0 - a1 - 360 * of_int m"
      using py_mod_shift[of "a0 - a1"] by (auto simp: D_def)
    have D: "0 \<le> D" using py_mod_range[of "a0 - a1"] by (simp add: D_def)
    have "p = ?P (a0 + tau * (- D))" using pt cw by (simp add: lower_dirs D_def)
    moreover have "a0 + tau * (- D) = (a1 + (1 - tau) * D) + 360 * of_int m"
      by (simp add: m algebra_simps)
    ultimately have p': "p = ?P (a1 + (1 - tau) * D)" by (simp only: circle_point_shift)
    have "a1 + D = a0 + 360 * of_int (- m)" by (simp add: m)
    then have end1: "?P (a1 + D) = ?P a0" by (simp only: circle_point_shift)
    have "box_contains (Some (Min (set (map fst ?L)), Min (set (map snd ?L)),
                             Max (set (map fst ?L)), Max (set (map snd ?L))))
           (?P (a1 + (1 - tau) * D))"
    proof (rule sweep_point_in_box[OF r])
      show "0 \<le> (1 - tau) * D" using tau D by simp
      show "(1 - tau) * D \<le> D" using tau D by (simp add: mult_left_le_one_le)
      show "?P a1 \<in> set ?L" by (rule arc_pts_ends)
      show "?P (a1 + D) \<in> set ?L" unfolding end1 by (rule arc_pts_ends)
      show "?P c \<in> set ?L" if "c \<in> {0, 90, 180, 270}" "py_mod (c - a1) 360 \<le> D" for c
        using that a unfolding cw D_def by (intro arc_pts_cardinal in_sweep_cw) auto
    qed
    then show ?thesis by (simp add: arc_bounds_pts p')
  qed
qed

subsection \<open>What one step adds to the box\<close>

lemma box_le_refl: "box_le b b"
  by (auto simp: box_le_def split: option.splits)

lemma box_le_trans: "box_le a b \<Longrightarrow> box_le b c \<Longrightarrow> box_le a c"
  by (auto simp: box_le_def split: option.splits)

lemma box_contains_mono: "box_le a b \<Longrightarrow> box_contains a p \<Longrightarrow> box_contains b p"
  by (auto simp: box_le_def box_contains_def split: option.splits)

lemma list_all_contains_mono:
  "box_le a b \<Longrightarrow> list_all (box_contains a) ps \<Longrightarrow> list_all (box_contains b) ps"
  by (auto simp: list_all_iff intro: box_contains_mono)

lemma add_bounds_le: "box_le b (add_bounds x b)"
  by (cases x) (auto simp: add_bounds_def box_le_def split: option.splits)

lemma add_bounds_contains: "box_contains (Some x) p \<Longrightarrow> box_contains (add_bounds x b) p"
  by (cases x) (auto simp: add_bounds_def box_contains_def split: option.splits)

lemma arc_radius_nonneg: "0 \<le> arc_radius sx sy cx cy e"
  by (simp add: arc_radius_def Let_def)

lemma angle_deg_math_range: "0 \<le> angle_deg_math cx cy x y \<and> angle_deg_math cx cy x y < 360"
  by (simp add: angle_deg_math_def py_mod_range)

lemma xml_dir_to_math_cases: "xml_dir_to_math d = ''ccw'' \<or> xml_dir_to_math d = ''cw''"
  by (simp add: xml_dir_to_math_def)

lemma edge_step:
  "box_le b (edge_bounds ang ox oy e b)
   \<and> list_all (box_contains (edge_bounds ang ox oy e b)) (vertices (draw_edge zoom col ang ox oy e))"
proof (cases "e_type e = Some ''line''")
  case True
  obtain sx sy where s: "rotate_translate (e_xs e) (e_ys e) ang ox oy = (sx, sy)" by fastforce
  obtain ex ey where t: "rotate_translate (e_xe e) (e_ye e) ang ox oy = (ex, ey)" by fastforce
  have eb: "edge_bounds ang ox oy e b = add_bounds (min sx ex, min sy ey, max sx ex, max sy ey) b"
    using True by (simp add: edge_bounds_def s t)
  have de: "vertices (draw_edge zoom col ang ox oy e) = [(sx, sy), (ex, ey)]"
    using True by (simp add: draw_edge_def vertices_def s t)
  have "box_contains (add_bounds (min sx ex, min sy ey, max sx ex, max sy ey) b) (sx, sy)"
    by (rule add_bounds_contains) (simp add: box_contains_def)
  moreover have "box_contains (add_bounds (min sx ex, min sy ey, max sx ex, max sy ey) b) (ex, ey)"
    by (rule add_bounds_contains) (simp add: box_contains_def)
  ultimately show ?thesis
    unfolding eb de by (simp add: add_bounds_le)
next
  case nl: False
  show ?thesis
  proof (cases "e_type e = Some ''arc''")
    case True
    obtain sx sy where s: "rotate_translate (e_xs e) (e_ys e) ang ox oy = (sx, sy)" by fastforce
    obtain ex ey where t: "rotate_translate (e_xe e) (e_ye e) ang ox oy = (ex, ey)" by fastforce
    obtain cx cy where c: "rotate_translate (e_xc e) (e_yc e) ang ox oy = (cx, cy)" by fastforce
    define r where "r = arc_radius sx sy cx cy e"
    define a0 where "a0 = angle_deg_math cx cy sx sy"
    define a1 where "a1 = angle_deg_math cx cy ex ey"
    define dm where "dm = xml_dir_to_math (e_direction e)"
    have eb: "edge_bounds ang ox oy e b = add_bounds (arc_bounds cx cy r a0 a1 dm) b"
      using True nl by (simp add: edge_bounds_def s t c Let_def r_def a0_def a1_def dm_def)
    have de: "set (vertices (draw_edge zoom col ang ox oy e))
                \<subseteq> set (arc_polyline_world_points zoom cx cy r a0 a1 dm)"
      using True nl
      by (simp add: draw_edge_def vertices_def s t c Let_def r_def a0_def a1_def dm_def)
    have "box_contains (add_bounds (arc_bounds cx cy r a0 a1 dm) b) p"
      if "p \<in> set (arc_polyline_world_points zoom cx cy r a0 a1 dm)" for p
      using that arc_radius_nonneg[of sx sy cx cy e] angle_deg_math_range[of cx cy sx sy]
        angle_deg_math_range[of cx cy ex ey] xml_dir_to_math_cases[of "e_direction e"]
      unfolding r_def a0_def a1_def dm_def
      by (intro add_bounds_contains arc_polyline_in_arc_bounds) auto
    with de show ?thesis
      unfolding eb by (auto simp: add_bounds_le list_all_iff)
  next
    case False
    with nl show ?thesis
      by (simp add: edge_bounds_def draw_edge_def vertices_def box_le_refl)
  qed
qed

lemma barcode_step:
  assumes "0 \<le> bc_width bc" "0 \<le> bc_height bc"
  shows "box_le b (barcode_bounds ang ox oy bc b)
   \<and> list_all (box_contains (barcode_bounds ang ox oy bc b)) (vertices (draw_barcode ang ox oy bc))"
proof -
  obtain bx by' where s: "rotate_translate (bc_x bc) (bc_y bc) ang ox oy = (bx, by')" by fastforce
  have bb: "barcode_bounds ang ox oy bc b
              = add_bounds (bx, by', bx + bc_width bc, by' + bc_height bc) b"
    by (simp add: barcode_bounds_def s)
  have "set (vertices (draw_barcode ang ox oy bc))
          \<subseteq> {(bx, by'), (bx + bc_width bc, by'), (bx, by' + bc_height bc),
              (bx + bc_width bc, by' + bc_height bc)}"
    by (auto simp: draw_barcode_def vertices_def s Let_def split: option.splits)
  moreover have "box_contains (add_bounds (bx, by', bx + bc_width bc, by' + bc_height bc) b) p"
    if "p \<in> {(bx, by'), (bx + bc_width bc, by'), (bx, by' + bc_height bc),
              (bx + bc_width bc, by' + bc_height bc)}" for p
    using that assms by (intro add_bounds_contains) (auto simp: box_contains_def)
  ultimately show ?thesis
    unfolding bb by (auto simp: add_bounds_le list_all_iff)
qed

lemma foldl_box:
  assumes "\<And>b x. x \<in> set xs \<Longrightarrow>
             box_le b (f b x) \<and> list_all (box_contains (f b x)) (V x)"
  shows "box_le b (foldl f b xs) \<and> list_all (box_contains (foldl f b xs)) (concat (map V xs))"
  using assms
proof (induction xs arbitrary: b)
  case Nil
  show ?case by (simp add: box_le_refl)
next
  case (Cons x xs)
  have 1: "box_le b (f b x)" "list_all (box_contains (f b x)) (V x)"
    using Cons.prems[of x b] by simp_all
  have 2: "box_le (f b x) (foldl f (f b x) xs)"
    "list_all (box_contains (foldl f (f b x) xs)) (concat (map V xs))"
    using Cons.IH[of "f b x"] Cons.prems by simp_all
  show ?case
    using 1 2 by (auto intro: box_le_trans list_all_contains_mono)
qed

lemma vertices_append: "vertices (xs @ ys) = vertices xs @ vertices ys"
  by (simp add: vertices_def)

lemma vertices_concat: "vertices (concat xss) = concat (map vertices xss)"
  by (induction xss) (simp_all add: vertices_def)

lemma step_local:
  assumes "sizes_nonneg st"
  shows "box_le b (step_local_bounds cv st ang ox oy b)
   \<and> list_all (box_contains (step_local_bounds cv st ang ox oy b))
        (vertices (local_draw cv st col ang ox oy))"
proof -
  define b1 where "b1 = (if show_xml_edges cv
                then foldl (\<lambda>b e. edge_bounds ang ox oy e b) b (edges st) else b)"
  define es where "es = (if show_xml_edges cv
      then concat (map (draw_edge (zoom_level cv) col ang ox oy) (edges st)) else [])"
  define b2 where "b2 = (if show_xml_barcodes cv
         then foldl (\<lambda>b ly. foldl (\<lambda>b bc. barcode_bounds ang ox oy bc b) b (barcode_list ly))
                b1 (layers st)
         else b1)"
  define bs where "bs = (if show_xml_barcodes cv
        then concat (map (\<lambda>ly. concat (map (draw_barcode ang ox oy) (barcode_list ly)))
                       (layers st))
        else [])"
  have e: "box_le b b1 \<and> list_all (box_contains b1) (vertices es)"
  proof (cases "show_xml_edges cv")
    case True
    have "box_le b (foldl (\<lambda>b e. edge_bounds ang ox oy e b) b (edges st))
      \<and> list_all (box_contains (foldl (\<lambda>b e. edge_bounds ang ox oy e b) b (edges st)))
          (concat (map (\<lambda>e. vertices (draw_edge (zoom_level cv) col ang ox oy e)) (edges st)))"
      by (rule foldl_box) (rule edge_step)
    then show ?thesis using True by (simp add: b1_def es_def vertices_concat comp_def)
  next
    case False
    then show ?thesis by (simp add: b1_def es_def box_le_refl vertices_def)
  qed
  have bc: "box_le b1 b2 \<and> list_all (box_contains b2) (vertices bs)"
  proof (cases "show_xml_barcodes cv")
    case True
    have inner: "box_le b' (foldl (\<lambda>b bc. barcode_bounds ang ox oy bc b) b' (barcode_list ly))
      \<and> list_all (box_contains (foldl (\<lambda>b bc. barcode_bounds ang ox oy bc b) b' (barcode_list ly)))
          (concat (map (\<lambda>bc. vertices (draw_barcode ang ox oy bc)) (barcode_list ly)))"
      if "ly \<in> set (layers st)" for ly b'
    proof (rule foldl_box)
      fix b'' bc assume "bc \<in> set (barcode_list ly)"
      with that assms have "0 \<le> bc_width bc" "0 \<le> bc_height bc"
        by (auto simp: sizes_nonneg_def list_all_iff)
      then show "box_le b'' (barcode_bounds ang ox oy bc b'')
        \<and> list_all (box_contains (barcode_bounds ang ox oy bc b''))
             (vertices (draw_barcode ang ox oy bc))"
        by (rule barcode_step)
    qed
    have "box_le b1 (foldl (\<lambda>b ly. foldl (\<lambda>b bc. barcode_bounds ang ox oy bc b) b (barcode_list ly))
                b1 (layers st))
      \<and> list_all (box_contains (foldl (\<lambda>b ly. foldl (\<lambda>b bc. barcode_bounds ang ox oy bc b) b
                                              (barcode_list ly)) b1 (layers st)))
          (concat (map (\<lambda>ly. concat (map (\<lambda>bc. vertices (draw_barcode ang ox oy bc))
                                         (barcode_list ly))) (layers st)))"
      by (rule foldl_box) (rule inner)
    then show ?thesis using True
      by (simp add: b2_def bs_def vertices_concat comp_def)
  next
    case False
    then show ?thesis by (simp add: b2_def bs_def box_le_refl vertices_def)
  qed
  have "step_local_bounds cv st ang ox oy b = b2"
    by (simp add: step_local_bounds_def Let_def b2_def b1_def)
  moreover have "local_draw cv st col ang ox oy = es @ bs"
    by (simp add: local_draw_def es_def bs_def)
  ultimately show ?thesis
    using e bc by (auto simp: vertices_append intro: box_le_trans list_all_contains_mono)
qed

subsection \<open>The draw walk inside the box of the bounds walk\<close>

lemma walks_agree:
  assumes all: "list_all (\<lambda>(n, s). sizes_nonneg s) (dr_steps d)"
  shows "fits_frames d n st \<Longrightarrow> sizes_nonneg st \<Longrightarrow>
     \<exists>cmds res. draw_xml_step_recursive n cv d st base ox oy c 0 = Inr cmds
        \<and> compute_step_bounds n cv d True st base ox oy dp b = Inr res
        \<and> box_le b res \<and> list_all (box_contains res) (vertices cmds)"
proof (induction n arbitrary: st base ox oy c dp b)
  case 0
  then show ?case by simp
next
  case (Suc n)
  define ang where "ang = - base * pi / 180"
  define col where "col = step_color (step_type st) 0"
  define F where "F = (\<lambda>rpt :: Repeat. case map_of (dr_steps d) (rp_step rpt) of
                            None \<Rightarrow> Inr []
                          | Some sub \<Rightarrow>
                              (case rotate_translate (rp_x rpt) (rp_y rpt) ang ox oy of
                                 (rx, ry) \<Rightarrow>
                                   draw_xml_step_recursive n cv d sub
                                     (base + rp_angle rpt) rx ry (0 + 1) 0))"
  define G where "G = (\<lambda>(rpt :: Repeat) (b :: box option). case map_of (dr_steps d) (rp_step rpt) of
                         None \<Rightarrow> Inr b
                       | Some sub \<Rightarrow>
                           (case rotate_translate (rp_x rpt) (rp_y rpt) ang ox oy of
                              (rx, ry) \<Rightarrow>
                                compute_step_bounds n cv d True sub
                                  (base + rp_angle rpt) rx ry (dp + 1) b))"
  define loc where "loc = local_draw cv st col ang ox oy"
  define b1 where "b1 = step_local_bounds cv st ang ox oy b"
  have draw_eq: "draw_xml_step_recursive (Suc n) cv d st base ox oy c 0
      = (if show_xml_repeats cv
         then bind_err (map_err F (repeats st)) (\<lambda>subs. Inr (loc @ concat subs))
         else Inr loc)"
    unfolding F_def loc_def local_draw_def col_def ang_def draw_xml_step_recursive.simps Let_def
    by simp
  have bnd_eq: "compute_step_bounds (Suc n) cv d True st base ox oy dp b
      = (if show_xml_repeats cv then fold_err G (repeats st) b1 else Inr b1)"
    unfolding G_def b1_def ang_def compute_step_bounds.simps Let_def by simp
  have loc: "box_le b b1" "list_all (box_contains b1) (vertices loc)"
    using step_local[OF Suc.prems(2), of b cv ang ox oy col] by (simp_all add: b1_def loc_def)
  have rep: "\<exists>subs res. map_err F rs = Inr subs \<and> fold_err G rs b0 = Inr res
                \<and> box_le b0 res \<and> list_all (box_contains res) (vertices (concat subs))"
    if "list_all (\<lambda>rpt. case map_of (dr_steps d) (rp_step rpt) of
                       None \<Rightarrow> True | Some sub \<Rightarrow> fits_frames d n sub) rs" for rs b0
    using that
  proof (induction rs arbitrary: b0)
    case Nil
    show ?case by (simp add: box_le_refl vertices_def)
  next
    case (Cons rpt rs)
    have "\<exists>cmds1 res1. F rpt = Inr cmds1 \<and> G rpt b0 = Inr res1
            \<and> box_le b0 res1 \<and> list_all (box_contains res1) (vertices cmds1)"
    proof (cases "map_of (dr_steps d) (rp_step rpt)")
      case None
      then show ?thesis by (simp add: F_def G_def box_le_refl vertices_def)
    next
      case (Some sub)
      have fit: "fits_frames d n sub" using Cons.prems Some by simp
      have "(rp_step rpt, sub) \<in> set (dr_steps d)" using Some by (rule map_of_SomeD)
      with all have sz: "sizes_nonneg sub" by (auto simp: list_all_iff)
      obtain rx ry where rt: "rotate_translate (rp_x rpt) (rp_y rpt) ang ox oy = (rx, ry)"
        by fastforce
      from Suc.IH[OF fit sz, of "base + rp_angle rpt" rx ry "0 + 1" "dp + 1" b0]
      show ?thesis by (simp add: F_def G_def Some rt)
    qed
    then obtain cmds1 res1 where 1: "F rpt = Inr cmds1" "G rpt b0 = Inr res1"
      "box_le b0 res1" "list_all (box_contains res1) (vertices cmds1)" by blast
    from Cons.IH[of res1] Cons.prems obtain subs res where 2: "map_err F rs = Inr subs"
      "fold_err G rs res1 = Inr res" "box_le res1 res"
      "list_all (box_contains res) (vertices (concat subs))" by auto
    have "map_err F (rpt # rs) = Inr (cmds1 # subs)" using 1 2 by (simp add: bind_err_def)
    moreover have "fold_err G (rpt # rs) b0 = Inr res" using 1 2 by (simp add: bind_err_def)
    moreover have "box_le b0 res" using 1 2 by (blast intro: box_le_trans)
    moreover have "list_all (box_contains res) (vertices (concat (cmds1 # subs)))"
      using 1 2 by (auto simp: vertices_append intro: list_all_contains_mono)
    ultimately show ?case by blast
  qed
  show ?case
  proof (cases "show_xml_repeats cv")
    case True
    from rep[of "repeats st" b1] Suc.prems(1) obtain subs res where
      r: "map_err F (repeats st) = Inr subs" "fold_err G (repeats st) b1 = Inr res"
      "box_le b1 res" "list_all (box_contains res) (vertices (concat subs))" by auto
    have "draw_xml_step_recursive (Suc n) cv d st base ox oy c 0 = Inr (loc @ concat subs)"
      unfolding draw_eq using True r by (simp add: bind_err_def)
    moreover have "compute_step_bounds (Suc n) cv d True st base ox oy dp b = Inr res"
      unfolding bnd_eq using True r by simp
    moreover have "box_le b res" using loc r by (blast intro: box_le_trans)
    moreover have "list_all (box_contains res) (vertices (loc @ concat subs))"
      using loc r by (auto simp: vertices_append intro: list_all_contains_mono)
    ultimately show ?thesis by blast
  next
    case False
    then show ?thesis unfolding draw_eq bnd_eq using loc by simp
  qed
qed

lemma frame0: "rotate_translate x y (- 0 * pi / 180) ox oy = (x + ox, y + oy)"
  by (simp add: rotate_translate_def)


text \<open>
  C4, as the code has it. Let the repeat graph below the root step be acyclic and fit into
  the stack, let \<open>fit_step\<close> be called with \<open>include_repeats\<close> true, and let no barcode
  have a negative width or height. Then under the same canvas flags both walks return, and
  the box of the bounds walk contains every vertex the draw walk produces: the ends of
  every line, every sample of every arc polyline and the corners of every barcode
  rectangle, in every repeated step.
\<close>

theorem draw_within_fit_bounds:
  assumes "fits_frames d frames st" and "sizes_nonneg st"
    and "list_all (\<lambda>(n, s). sizes_nonneg s) (dr_steps d)"
  shows "\<exists>cmds res. draw_xml_walk frames cv d st = Inr cmds
           \<and> fit_step_bounds frames cv d True st = Inr res
           \<and> list_all (box_contains res) (vertices cmds)"
  using walks_agree[OF assms(3) assms(1) assms(2), of cv 0 "- step_x st" "- step_y st" 0 0 None]
  by (auto simp: draw_xml_walk_def fit_step_bounds_def)

theorem draw_within_fit_bounds_witness:
  "case (draw_xml_walk 2 Canvas_init nested_drawing outer_step,
         fit_step_bounds 2 Canvas_init nested_drawing True outer_step) of
     (Inr cmds, Inr res) \<Rightarrow> list_all (box_contains res) (vertices cmds)
   | _ \<Rightarrow> False"
proof -
  have fit: "fits_frames nested_drawing 2 outer_step"
    by (simp add: numeral_2_eq_2 nested_drawing_def outer_step_def inner_step_def)
  have sz: "sizes_nonneg outer_step"
    by (simp add: sizes_nonneg_def outer_step_def)
  have all: "list_all (\<lambda>(n, s). sizes_nonneg s) (dr_steps nested_drawing)"
    by (simp add: sizes_nonneg_def nested_drawing_def outer_step_def inner_step_def)
  from draw_within_fit_bounds[OF fit sz all, of Canvas_init]
  show ?thesis by auto
qed

text \<open>
  C4 as stated fails in two ways. With \<open>include_repeats\<close> false the bounds walk of
  \<open>fit_step\<close> does not descend, so the line of the repeated step \<open>B\<close> at (5, 5) is drawn
  outside the box of \<open>A\<close>. And a barcode of width -5 yields the box from 0 to -5, which does
  not hold the barcode's own anchor.
\<close>

theorem fit_box_misses_drawn_vertices:
  "draw_xml_walk 2 Canvas_init nested_drawing outer_step
     = Inr [DrawLine (0, 255, 255) (0, 0) (10, 0), DrawLine (0, 255, 255) (5, 5) (6, 5)]
   \<and> fit_step_bounds 2 Canvas_init nested_drawing False outer_step = Inr (Some (0, 0, 10, 0))
   \<and> \<not> box_contains (Some (0, 0, 10, 0)) (5, 5)
   \<and> draw_xml_walk 1 Canvas_init narrow_drawing narrow_step = Inr [DrawRect (0, 0) (- 5) 1]
   \<and> fit_step_bounds 1 Canvas_init narrow_drawing True narrow_step = Inr (Some (0, 0, - 5, 1))
   \<and> \<not> box_contains (Some (0, 0, - 5, 1)) (0, 0)"
  by (simp add: draw_xml_walk_def fit_step_bounds_def numeral_2_eq_2 Canvas_init_def
      nested_drawing_def outer_step_def inner_step_def narrow_drawing_def narrow_step_def
      line_edge_def draw_edge_def draw_barcode_def step_local_bounds_def edge_bounds_def
      barcode_bounds_def add_bounds_def rotate_translate_def step_color_def OUTLINE_COLORS_def
      bind_err_def box_contains_def Let_def)


subsection \<open>Cardinal points of an arc\<close>

lemma foldl_mono:
  assumes "\<And>b x. box_le b (f b x)"
  shows "box_le b (foldl f b xs)"
proof (induction xs arbitrary: b)
  case Nil
  show ?case by (simp add: box_le_refl)
next
  case (Cons x xs)
  show ?case using assms[of b x] Cons[of "f b x"] by (auto intro: box_le_trans)
qed

lemma foldl_keeps:
  assumes mono: "\<And>b x. box_le b (f b x)" and mem: "x \<in> set xs"
    and hit: "\<And>b. box_contains (f b x) p"
  shows "box_contains (foldl f b xs) p"
  using mem
proof (induction xs arbitrary: b)
  case Nil
  then show ?case by simp
next
  case (Cons a xs)
  show ?case
  proof (cases "a = x")
    case True
    have "box_le (f b x) (foldl f (f b x) xs)" by (rule foldl_mono) (rule mono)
    with hit[of b] show ?thesis using True by (auto intro: box_contains_mono)
  next
    case False
    with Cons.prems have "x \<in> set xs" by simp
    from Cons.IH[OF this, of "f b a"] show ?thesis by simp
  qed
qed

lemma edge_bounds_le: "box_le b (edge_bounds ang ox oy e b)"
  using edge_step[of b ang ox oy e] by simp

lemma barcode_bounds_le: "box_le b (barcode_bounds ang ox oy bc b)"
  by (auto simp: barcode_bounds_def add_bounds_le split: prod.splits)

lemma step_local_mono: "box_le b (step_local_bounds cv st ang ox oy b)"
proof -
  have 1: "box_le b' (foldl (\<lambda>b e. edge_bounds ang ox oy e b) b' es)" for b' es
    by (rule foldl_mono) (rule edge_bounds_le)
  have 2: "box_le b' (foldl (\<lambda>b bc. barcode_bounds ang ox oy bc b) b' bcs)" for b' bcs
    by (rule foldl_mono) (rule barcode_bounds_le)
  have 3: "box_le b' (foldl (\<lambda>b ly. foldl (\<lambda>b bc. barcode_bounds ang ox oy bc b) b
                                (barcode_list ly)) b' lys)" for b' lys
    by (rule foldl_mono) (rule 2)
  have 4: "box_le b (foldl (\<lambda>b ly. foldl (\<lambda>b bc. barcode_bounds ang ox oy bc b) b
                                (barcode_list ly))
                      (foldl (\<lambda>b e. edge_bounds ang ox oy e b) b (edges st)) (layers st))"
    by (rule box_le_trans[OF 1 3])
  show ?thesis
    using 1[of b "edges st"] 3[of b "layers st"] 4
    by (simp add: step_local_bounds_def Let_def box_le_refl)
qed

lemma step_local_edge:
  assumes "show_xml_edges cv" and "e \<in> set (edges st)"
    and hit: "\<And>b. box_contains (edge_bounds ang ox oy e b) p"
  shows "box_contains (step_local_bounds cv st ang ox oy b) p"
proof -
  define b1 where "b1 = foldl (\<lambda>b e. edge_bounds ang ox oy e b) b (edges st)"
  have 1: "box_contains b1 p"
    unfolding b1_def by (rule foldl_keeps[OF edge_bounds_le assms(2)]) (rule hit)
  have 2: "box_le b' (foldl (\<lambda>b bc. barcode_bounds ang ox oy bc b) b' bcs)" for b' bcs
    by (rule foldl_mono) (rule barcode_bounds_le)
  have 3: "box_le b1 (foldl (\<lambda>b ly. foldl (\<lambda>b bc. barcode_bounds ang ox oy bc b) b
                                (barcode_list ly)) b1 (layers st))"
    by (rule foldl_mono) (rule 2)
  have "step_local_bounds cv st ang ox oy b
          = (if show_xml_barcodes cv
             then foldl (\<lambda>b ly. foldl (\<lambda>b bc. barcode_bounds ang ox oy bc b) b
                                (barcode_list ly)) b1 (layers st)
             else b1)"
    using assms(1) by (simp add: step_local_bounds_def Let_def b1_def)
  with 1 3 show ?thesis by (auto intro: box_contains_mono)
qed

lemma fold_err_mono:
  assumes "\<And>x b r. x \<in> set xs \<Longrightarrow> G x b = Inr r \<Longrightarrow> box_le b r"
    and "fold_err G xs b = Inr res"
  shows "box_le b res"
  using assms
proof (induction xs arbitrary: b)
  case Nil
  then show ?case by (simp add: box_le_refl)
next
  case (Cons x xs)
  from Cons.prems(2) obtain r where r: "G x b = Inr r" "fold_err G xs r = Inr res"
    by (auto simp: bind_err_def split: sum.splits)
  have "box_le b r" using Cons.prems(1)[of x b r] r by simp
  moreover have "box_le r res"
  proof (rule Cons.IH[OF _ r(2)])
    fix y b' r' assume "y \<in> set xs" "G y b' = Inr r'"
    then show "box_le b' r'" using Cons.prems(1)[of y b' r'] by simp
  qed
  ultimately show ?case by (rule box_le_trans)
qed

lemma compute_step_bounds_mono:
  "compute_step_bounds n cv d inc st base ox oy dp b = Inr res \<Longrightarrow>
     box_le (step_local_bounds cv st (- base * pi / 180) ox oy b) res"
proof (induction n arbitrary: st base ox oy dp b res)
  case 0
  then show ?case by simp
next
  case (Suc n)
  define ang where "ang = - base * pi / 180"
  define b1 where "b1 = step_local_bounds cv st ang ox oy b"
  define G where "G = (\<lambda>(rpt :: Repeat) (b :: box option).
                       case map_of (dr_steps d) (rp_step rpt) of
                         None \<Rightarrow> Inr b
                       | Some sub \<Rightarrow>
                           (case rotate_translate (rp_x rpt) (rp_y rpt) ang ox oy of
                              (rx, ry) \<Rightarrow>
                                compute_step_bounds n cv d inc sub
                                  (base + rp_angle rpt) rx ry (dp + 1) b))"
  have bnd_eq: "compute_step_bounds (Suc n) cv d inc st base ox oy dp b
      = (if inc \<and> show_xml_repeats cv then fold_err G (repeats st) b1 else Inr b1)"
    unfolding G_def b1_def ang_def compute_step_bounds.simps Let_def by simp
  have G: "box_le b' r" if "G x b' = Inr r" for x b' r
  proof (cases "map_of (dr_steps d) (rp_step x)")
    case None
    with that show ?thesis by (simp add: G_def box_le_refl)
  next
    case (Some sub)
    obtain rx ry where rt: "rotate_translate (rp_x x) (rp_y x) ang ox oy = (rx, ry)"
      by fastforce
    from that have "compute_step_bounds n cv d inc sub (base + rp_angle x) rx ry (dp + 1) b'
                      = Inr r"
      by (simp add: G_def Some rt)
    from Suc.IH[OF this] step_local_mono show ?thesis by (blast intro: box_le_trans)
  qed
  show ?case
  proof (cases "inc \<and> show_xml_repeats cv")
    case True
    with Suc.prems have "fold_err G (repeats st) b1 = Inr res" unfolding bnd_eq by simp
    then have "box_le b1 res" by (rule fold_err_mono[rotated]) (rule G)
    then show ?thesis by (simp add: b1_def ang_def)
  next
    case False
    with Suc.prems have "res = b1" unfolding bnd_eq by auto
    then show ?thesis by (simp add: b1_def ang_def box_le_refl)
  qed
qed

lemma arc_pts_in_arc_bounds:
  assumes "p \<in> set (arc_pts cx cy r a0 a1 d)"
  shows "box_contains (Some (arc_bounds cx cy r a0 a1 d)) p"
proof -
  have "fst p \<in> set (map fst (arc_pts cx cy r a0 a1 d))"
    "snd p \<in> set (map snd (arc_pts cx cy r a0 a1 d))"
    using assms by (simp_all only: set_map image_eqI)
  then show ?thesis
    unfolding arc_bounds_pts box_contains_def by (simp only: option.case prod.case) (simp only: Min_le Max_ge List.finite_set simp_thms)
qed

lemma edge_bounds_arc:
  assumes "e_type e = Some ''arc''"
    and "arc_geometry ang ox oy e = (cx, cy, r, a0, a1, dm)"
  shows "edge_bounds ang ox oy e b = add_bounds (arc_bounds cx cy r a0 a1 dm) b"
  using assms by (auto simp: edge_bounds_def arc_geometry_def Let_def split: prod.splits)


lemma fold_err_returns:
  assumes "\<And>x b. x \<in> set xs \<Longrightarrow> \<exists>r. G x b = Inr r"
  shows "\<exists>res. fold_err G xs b = Inr res"
  using assms
proof (induction xs arbitrary: b)
  case Nil
  then show ?case by simp
next
  case (Cons x xs)
  from Cons.prems[of x b] obtain r where r: "G x b = Inr r" by auto
  have "\<exists>res. fold_err G xs r = Inr res"
    by (rule Cons.IH) (simp add: Cons.prems)
  with r show ?case by (simp add: bind_err_def)
qed

lemma compute_step_bounds_returns:
  "fits_frames d n st \<Longrightarrow> \<exists>res. compute_step_bounds n cv d inc st base ox oy dp b = Inr res"
proof (induction n arbitrary: st base ox oy dp b)
  case 0
  then show ?case by simp
next
  case (Suc n)
  define ang where "ang = - base * pi / 180"
  define b1 where "b1 = step_local_bounds cv st ang ox oy b"
  define G where "G = (\<lambda>(rpt :: Repeat) (b :: box option).
                       case map_of (dr_steps d) (rp_step rpt) of
                         None \<Rightarrow> Inr b
                       | Some sub \<Rightarrow>
                           (case rotate_translate (rp_x rpt) (rp_y rpt) ang ox oy of
                              (rx, ry) \<Rightarrow>
                                compute_step_bounds n cv d inc sub
                                  (base + rp_angle rpt) rx ry (dp + 1) b))"
  have bnd_eq: "compute_step_bounds (Suc n) cv d inc st base ox oy dp b
      = (if inc \<and> show_xml_repeats cv then fold_err G (repeats st) b1 else Inr b1)"
    unfolding G_def b1_def ang_def compute_step_bounds.simps Let_def by simp
  have G: "\<exists>r. G x b' = Inr r" if "x \<in> set (repeats st)" for x b'
  proof (cases "map_of (dr_steps d) (rp_step x)")
    case None
    then show ?thesis by (simp add: G_def)
  next
    case (Some sub)
    obtain rx ry where rt: "rotate_translate (rp_x x) (rp_y x) ang ox oy = (rx, ry)"
      by fastforce
    from Suc.prems that Some have "fits_frames d n sub"
      by (auto simp: list_all_iff)
    from Suc.IH[OF this, of "base + rp_angle x" rx ry "dp + 1" b']
    show ?thesis by (simp add: G_def Some rt)
  qed
  have "\<exists>res. fold_err G (repeats st) b1 = Inr res"
    by (rule fold_err_returns) (rule G)
  then show ?case unfolding bnd_eq by auto
qed

lemma fold_err_member:
  assumes mono: "\<And>y b r. G y b = Inr r \<Longrightarrow> box_le b r"
    and "fold_err G xs b = Inr res" and "x \<in> set xs"
  shows "\<exists>b' r. G x b' = Inr r \<and> box_le r res"
  using assms(2,3)
proof (induction xs arbitrary: b)
  case Nil
  then show ?case by simp
next
  case (Cons a xs)
  from Cons.prems(1) obtain r0 where r0: "G a b = Inr r0" "fold_err G xs r0 = Inr res"
    by (auto simp: bind_err_def split: sum.splits)
  show ?case
  proof (cases "x = a")
    case True
    have "box_le r0 res"
      by (rule fold_err_mono[OF _ r0(2)]) (rule mono)
    with r0 True show ?thesis by blast
  next
    case False
    with Cons.prems(2) have "x \<in> set xs" by simp
    from Cons.IH[OF r0(2) this] show ?thesis .
  qed
qed

lemma placed_call:
  assumes run: "compute_step_bounds n cv d inc root_step 0 (- step_x root_step)
                  (- step_y root_step) dp0 b0 = Inr res"
    and pl: "placed d (inc \<and> show_xml_repeats cv) root_step st base ox oy"
  shows "\<exists>n' dp' b' res'. compute_step_bounds n' cv d inc st base ox oy dp' b' = Inr res'
           \<and> box_le res' res"
  using pl
proof (induction rule: placed.induct)
  case placed_root
  from run show ?case by (blast intro: box_le_refl)
next
  case (placed_repeat st base ox oy rpt sub rx ry)
  from placed_repeat.IH obtain n' dp' b' res' where
    call: "compute_step_bounds n' cv d inc st base ox oy dp' b' = Inr res'"
    and le: "box_le res' res" by blast
  from call obtain m where n': "n' = Suc m" by (cases n') auto
  define ang where "ang = - base * pi / 180"
  define b1 where "b1 = step_local_bounds cv st ang ox oy b'"
  define G where "G = (\<lambda>(rpt :: Repeat) (b :: box option).
                       case map_of (dr_steps d) (rp_step rpt) of
                         None \<Rightarrow> Inr b
                       | Some sub \<Rightarrow>
                           (case rotate_translate (rp_x rpt) (rp_y rpt) ang ox oy of
                              (rx, ry) \<Rightarrow>
                                compute_step_bounds m cv d inc sub
                                  (base + rp_angle rpt) rx ry (dp' + 1) b))"
  have bnd_eq: "compute_step_bounds (Suc m) cv d inc st base ox oy dp' b'
      = (if inc \<and> show_xml_repeats cv then fold_err G (repeats st) b1 else Inr b1)"
    unfolding G_def b1_def ang_def compute_step_bounds.simps Let_def by simp
  have mono: "box_le b'' r" if "G y b'' = Inr r" for y b'' r
  proof (cases "map_of (dr_steps d) (rp_step y)")
    case None
    with that show ?thesis by (simp add: G_def box_le_refl)
  next
    case (Some s)
    obtain ux uy where rt: "rotate_translate (rp_x y) (rp_y y) ang ox oy = (ux, uy)"
      by fastforce
    from that have "compute_step_bounds m cv d inc s (base + rp_angle y) ux uy (dp' + 1) b''
                      = Inr r"
      by (simp add: G_def Some rt)
    from compute_step_bounds_mono[OF this] step_local_mono show ?thesis
      by (blast intro: box_le_trans)
  qed
  from call placed_repeat.hyps(2) have fe: "fold_err G (repeats st) b1 = Inr res'"
    unfolding n' bnd_eq by simp
  have "\<exists>b'' r. G rpt b'' = Inr r \<and> box_le r res'"
    by (rule fold_err_member[OF _ fe placed_repeat.hyps(3)]) (rule mono)
  then obtain b'' r where r: "G rpt b'' = Inr r" "box_le r res'" by blast
  from r(1) have "compute_step_bounds m cv d inc sub (base + rp_angle rpt) rx ry (dp' + 1) b''
                    = Inr r"
    using placed_repeat.hyps(4,5) by (simp add: G_def ang_def)
  moreover have "box_le r res" using r(2) le by (rule box_le_trans)
  ultimately show ?case by blast
qed

text \<open>
  C7. When a cardinal angle \<open>c\<close> of 0, 90, 180 or 270 degrees passes the test
  \<open>angle_in_sweep\<close> for an arc, the box of \<open>arc_bounds\<close> contains the circle point
  \<open>(cx + r cos c, cy - r sin c)\<close> as well as the points at both end angles. In the bounds
  walk of \<open>fit_step\<close> this holds for the box of the whole walk and for every arc the walk
  meets: for a root step whose repeat graph fits the stack, the walk returns, and its box
  contains these three points for each arc edge of each placed step, the root step's own
  and those reached through repeats, with the circle computed in the frame of the
  placement. For a circle around the origin and \<open>c = 0\<close> the point is \<open>(r, 0)\<close>.
\<close>

theorem arc_bounds_cardinal:
  assumes "c \<in> {0, 90, 180, 270}" and "angle_in_sweep c a0 a1 direction"
  shows "box_contains (Some (arc_bounds cx cy r a0 a1 direction))
           (cx + r * cos (radians c), cy - r * sin (radians c))
       \<and> box_contains (Some (arc_bounds cx cy r a0 a1 direction))
           (cx + r * cos (radians a0), cy - r * sin (radians a0))
       \<and> box_contains (Some (arc_bounds cx cy r a0 a1 direction))
           (cx + r * cos (radians a1), cy - r * sin (radians a1))
       \<and> (\<forall>frames cv d inc root_step st base ox oy e.
            fits_frames d frames root_step \<and> show_xml_edges cv
            \<and> placed d (inc \<and> show_xml_repeats cv) root_step st base ox oy
            \<and> e \<in> set (edges st) \<and> e_type e = Some ''arc''
            \<and> arc_geometry (- base * pi / 180) ox oy e = (cx, cy, r, a0, a1, direction)
            \<longrightarrow> (\<exists>res. fit_step_bounds frames cv d inc root_step = Inr res
                   \<and> box_contains res (cx + r * cos (radians c), cy - r * sin (radians c))
                   \<and> box_contains res (cx + r * cos (radians a0), cy - r * sin (radians a0))
                   \<and> box_contains res (cx + r * cos (radians a1), cy - r * sin (radians a1))
                   \<and> (c = 0 \<and> cx = 0 \<and> cy = 0 \<longrightarrow> box_contains res (r, 0))))"
proof -
  let ?B = "Some (arc_bounds cx cy r a0 a1 direction)"
  let ?pc = "circle_point cx cy r (radians c)"
  let ?p0 = "circle_point cx cy r (radians a0)"
  let ?p1 = "circle_point cx cy r (radians a1)"
  have card: "box_contains ?B ?pc"
    by (rule arc_pts_in_arc_bounds) (rule arc_pts_cardinal[OF assms])
  have e0: "box_contains ?B ?p0"
    by (rule arc_pts_in_arc_bounds) (rule arc_pts_ends)
  have e1: "box_contains ?B ?p1"
    by (rule arc_pts_in_arc_bounds) (rule arc_pts_ends)
  have walk: "\<exists>res. fit_step_bounds frames cv d inc root_step = Inr res
                \<and> box_contains res ?pc \<and> box_contains res ?p0 \<and> box_contains res ?p1
                \<and> (c = 0 \<and> cx = 0 \<and> cy = 0 \<longrightarrow> box_contains res (r, 0))"
    if h: "fits_frames d frames root_step \<and> show_xml_edges cv
        \<and> placed d (inc \<and> show_xml_repeats cv) root_step st base ox oy
        \<and> e \<in> set (edges st) \<and> e_type e = Some ''arc''
        \<and> arc_geometry (- base * pi / 180) ox oy e = (cx, cy, r, a0, a1, direction)"
    for frames cv d inc root_step st base ox oy and e :: Edge
  proof -
    from h compute_step_bounds_returns[of d frames root_step cv inc 0 "- step_x root_step"
        "- step_y root_step" 0 None]
    obtain res where run: "compute_step_bounds frames cv d inc root_step 0
        (- step_x root_step) (- step_y root_step) 0 None = Inr res" by blast
    from placed_call[OF run] h obtain n' dp' b' res' where
      call: "compute_step_bounds n' cv d inc st base ox oy dp' b' = Inr res'"
      and le: "box_le res' res" by blast
    have eb: "edge_bounds (- base * pi / 180) ox oy e b''
                = add_bounds (arc_bounds cx cy r a0 a1 direction) b''" for b''
      using h by (simp add: edge_bounds_arc)
    have loc: "box_contains (step_local_bounds cv st (- base * pi / 180) ox oy b') p"
      if "box_contains ?B p" for p
    proof (rule step_local_edge)
      show "show_xml_edges cv" using h by simp
      show "e \<in> set (edges st)" using h by simp
      show "box_contains (edge_bounds (- base * pi / 180) ox oy e b'') p" for b''
        unfolding eb using that by (rule add_bounds_contains)
    qed
    have le2: "box_le (step_local_bounds cv st (- base * pi / 180) ox oy b') res"
      using compute_step_bounds_mono[OF call] le by (rule box_le_trans)
    have inres: "box_contains res p" if "box_contains ?B p" for p
      using le2 loc[OF that] by (rule box_contains_mono)
    have "box_contains res (r, 0)" if "c = 0 \<and> cx = 0 \<and> cy = 0"
      using inres[OF card] that by (simp add: circle_point_def cardinal_values)
    with run inres[OF card] inres[OF e0] inres[OF e1] show ?thesis
      by (simp add: fit_step_bounds_def)
  qed
  from card e0 e1 walk show ?thesis
    unfolding circle_point_def by blast
qed

lemma atan2_y_axis: "atan2 1 0 = pi / 2" "atan2 (- 1) 0 = - pi / 2"
proof -
  have "Complex 0 1 = \<i>" "Complex 0 (- 1) = - \<i>"
    by (simp_all add: complex_eq_iff)
  then show "atan2 1 0 = pi / 2" "atan2 (- 1) 0 = - pi / 2"
    by (simp_all add: atan2_def)
qed

text \<open>
  The half circle of step \<open>H\<close>, met through the repeat of \<open>P\<close>: the sweep holds 0 degrees,
  and the box of the walk contains (1, 0), which the box of the two ends (0, 1) and
  (0, -1) does not.
\<close>

lemma half_arc_sweep: "angle_in_sweep 0 270 90 ''ccw''"
  by (simp add: angle_in_sweep_def Let_def lower_dirs normalize_deg_def py_mod_def)

theorem arc_bounds_cardinal_witness:
  "case fit_step_bounds 2 Canvas_init panel_drawing True panel_step of
     Inl e \<Rightarrow> False
   | Inr res \<Rightarrow> box_contains res (1, 0)"
proof -
  have c: "(0::real) \<in> {0, 90, 180, 270}" by simp
  have fit: "fits_frames panel_drawing 2 panel_step"
    by (simp add: numeral_2_eq_2 panel_drawing_def panel_step_def panel_repeat_def
        half_arc_step_def)
  have root: "placed panel_drawing (True \<and> show_xml_repeats Canvas_init) panel_step
                panel_step 0 (- step_x panel_step) (- step_y panel_step)"
    by (rule placed_root)
  have "placed panel_drawing (True \<and> show_xml_repeats Canvas_init) panel_step
          half_arc_step (0 + rp_angle panel_repeat) 0 0"
    by (rule placed_repeat[OF root])
      (simp_all add: Canvas_init_def panel_step_def panel_drawing_def panel_repeat_def
        rotate_translate_def)
  then have pl: "placed panel_drawing (True \<and> show_xml_repeats Canvas_init) panel_step
                   half_arc_step 0 0 0"
    by (simp add: panel_repeat_def)
  have geo: "arc_geometry (- 0 * pi / 180) 0 0 half_arc = (0, 0, 1, 270, 90, ''ccw'')"
    by (simp add: arc_geometry_def half_arc_def rotate_translate_def arc_radius_def
        angle_deg_math_def atan2_y_axis degrees_def py_mod_def xml_dir_to_math_def lower_dirs)
  have mem: "half_arc \<in> set (edges half_arc_step)" by (simp add: half_arc_step_def)
  have ty: "e_type half_arc = Some ''arc''" by (simp add: half_arc_def)
  from arc_bounds_cardinal[OF c half_arc_sweep, where cx = 0 and cy = 0 and r = 1]
    fit Canvas_init_flags(2) pl geo mem ty
  obtain res where "fit_step_bounds 2 Canvas_init panel_drawing True panel_step = Inr res"
    "box_contains res (1, 0)" by blast
  then show ?thesis by simp
qed

end
